theory Spec2Isabelle
  imports Main "HOL-Library.Word"
begin

section \<open>Strings as the JavaScript code uses them\<close>

text \<open>
  Strings are lists of characters; the model is restricted to ASCII, so
  \<^verbatim>\<open>toLowerCase\<close>, \<^verbatim>\<open>toUpperCase\<close> and \<^verbatim>\<open>trim\<close> act on the ASCII letters and
  the ASCII white space only (JavaScript also folds and strips some characters
  outside ASCII).
\<close>

definition is_upper :: "char \<Rightarrow> bool" where
  "is_upper c = (65 \<le> (of_char c :: nat) \<and> (of_char c :: nat) \<le> 90)"

definition is_lower :: "char \<Rightarrow> bool" where
  "is_lower c = (97 \<le> (of_char c :: nat) \<and> (of_char c :: nat) \<le> 122)"

definition is_digit :: "char \<Rightarrow> bool" where
  "is_digit c = (48 \<le> (of_char c :: nat) \<and> (of_char c :: nat) \<le> 57)"

definition is_space :: "char \<Rightarrow> bool" where
  "is_space c = ((of_char c :: nat) = 32 \<or> (9 \<le> (of_char c :: nat) \<and> (of_char c :: nat) \<le> 13))"

definition lower_char :: "char \<Rightarrow> char" where
  "lower_char c = (if is_upper c then char_of ((of_char c :: nat) + 32) else c)"

definition upper_char :: "char \<Rightarrow> char" where
  "upper_char c = (if is_lower c then char_of ((of_char c :: nat) - 32) else c)"

definition toLowerCase :: "string \<Rightarrow> string" where
  "toLowerCase s = map lower_char s"

definition toUpperCase :: "string \<Rightarrow> string" where
  "toUpperCase s = map upper_char s"

definition trim :: "string \<Rightarrow> string" where
  "trim s = rev (dropWhile is_space (rev (dropWhile is_space s)))"

definition startsWith :: "string \<Rightarrow> string \<Rightarrow> bool" where
  "startsWith s p = (take (length p) s = p)"

definition substring :: "string \<Rightarrow> nat \<Rightarrow> string" where
  "substring s n = drop n s"

fun join :: "string \<Rightarrow> string list \<Rightarrow> string" where
  "join sep [] = []"
| "join sep [m] = m"
| "join sep (m # ms) = m @ sep @ join sep ms"

text \<open>
  Truthiness of a request field: \<^verbatim>\<open>undefined\<close>, \<^verbatim>\<open>null\<close> (\<open>None\<close>), the empty string and the
  number 0 are falsy.
\<close>

definition truthy :: "string option \<Rightarrow> bool" where
  "truthy v = (case v of None \<Rightarrow> False | Some s \<Rightarrow> s \<noteq> [])"

definition truthy_num :: "int option \<Rightarrow> bool" where
  "truthy_num v = (case v of None \<Rightarrow> False | Some n \<Rightarrow> n \<noteq> 0)"

definition str :: "string option \<Rightarrow> string" where
  "str v = (case v of None \<Rightarrow> [] | Some s \<Rightarrow> s)"

section \<open>The family code generator (models/User.js, generateFamilyCode)\<close>

text \<open>
  \<^verbatim>\<open>crypto.randomBytes(3).toString('hex').toUpperCase()\<close>: the three random bytes are the
  argument; each byte is written as two hexadecimal digits, high nibble first.
\<close>

type_synonym byte = "8 word"
type_synonym bytes3 = "byte \<times> byte \<times> byte"

definition hex_digit :: "nat \<Rightarrow> char" where
  "hex_digit n = (if n < 10 then char_of (48 + n) else char_of (87 + n))"

definition byte_to_hex :: "byte \<Rightarrow> string" where
  "byte_to_hex b = [hex_digit (unat b div 16), hex_digit (unat b mod 16)]"

definition toString_hex :: "byte list \<Rightarrow> string" where
  "toString_hex bs = concat (map byte_to_hex bs)"

definition generateFamilyCode :: "bytes3 \<Rightarrow> string" where
  "generateFamilyCode r = (case r of (a, b, c) \<Rightarrow> toUpperCase (toString_hex [a, b, c]))"

definition family_code_space :: "string set" where
  "family_code_space = range generateFamilyCode"

definition is_upper_alnum :: "char \<Rightarrow> bool" where
  "is_upper_alnum c = (is_digit c \<or> is_upper c)"

definition is_upper_hex :: "char \<Rightarrow> bool" where
  "is_upper_hex c = (is_digit c \<or> (65 \<le> (of_char c :: nat) \<and> (of_char c :: nat) \<le> 70))"

section \<open>The e-mail pattern of the User schema\<close>

text \<open>
  The schema validates e-mails against
  \<^verbatim>\<open>/^\w+([\.-]?\w+)*@\w+([\.-]?\w+)*(\.\w{2,3})+$/\<close>. The pattern is anchored at both
  ends, so a string passes exactly when the whole of it is in the language of the
  expression; the matcher below decides that by derivatives.
\<close>

datatype cclass = WordChar | DotDash | Lit char

fun in_class :: "cclass \<Rightarrow> char \<Rightarrow> bool" where
  "in_class WordChar c = (is_digit c \<or> is_upper c \<or> is_lower c \<or> c = CHR ''_'')"
| "in_class DotDash c = (c = CHR ''.'' \<or> c = CHR ''-'')"
| "in_class (Lit d) c = (c = d)"

datatype regex = NoMatch | Eps | Atom cclass | Alt regex regex | Then regex regex | Many regex

fun nullable :: "regex \<Rightarrow> bool" where
  "nullable NoMatch = False"
| "nullable Eps = True"
| "nullable (Atom a) = False"
| "nullable (Alt r s) = (nullable r \<or> nullable s)"
| "nullable (Then r s) = (nullable r \<and> nullable s)"
| "nullable (Many r) = True"

fun deriv :: "char \<Rightarrow> regex \<Rightarrow> regex" where
  "deriv c NoMatch = NoMatch"
| "deriv c Eps = NoMatch"
| "deriv c (Atom a) = (if in_class a c then Eps else NoMatch)"
| "deriv c (Alt r s) = Alt (deriv c r) (deriv c s)"
| "deriv c (Then r s) =
     (if nullable r then Alt (Then (deriv c r) s) (deriv c s) else Then (deriv c r) s)"
| "deriv c (Many r) = Then (deriv c r) (Many r)"

fun regex_test :: "regex \<Rightarrow> string \<Rightarrow> bool" where
  "regex_test r [] = nullable r"
| "regex_test r (c # cs) = regex_test (deriv c r) cs"

definition OneOrMore :: "regex \<Rightarrow> regex" where
  "OneOrMore r = Then r (Many r)"

definition Optional :: "regex \<Rightarrow> regex" where
  "Optional r = Alt r Eps"

definition email_pattern :: regex where
  "email_pattern =
     Then (OneOrMore (Atom WordChar))
    (Then (Many (Then (Optional (Atom DotDash)) (OneOrMore (Atom WordChar))))
    (Then (Atom (Lit CHR ''@''))
    (Then (OneOrMore (Atom WordChar))
    (Then (Many (Then (Optional (Atom DotDash)) (OneOrMore (Atom WordChar))))
          (OneOrMore (Then (Atom (Lit CHR ''.''))
             (Then (Atom WordChar) (Then (Atom WordChar) (Optional (Atom WordChar))))))))))"

section \<open>Password digests (bcryptjs)\<close>

text \<open>
  Modelled from the spec: the bcryptjs library (\<^verbatim>\<open>genSalt\<close>, \<^verbatim>\<open>hash\<close>, \<^verbatim>\<open>compare\<close>) is not part
  of the sources. Following the Credential Store of the specification, \<^verbatim>\<open>hash\<close> takes a
  plaintext and a per-call salt to a digest, two hashes of one plaintext under different
  salts differ, and \<^verbatim>\<open>compare\<close> accepts exactly the plaintext that was hashed. The digest
  is symbolic: it records the salt and the text that was hashed. The password field of a
  document holds either the plaintext it was given or a digest.
\<close>

type_synonym salt = "nat \<times> nat"

datatype pwtext = Plain string | Bcrypt salt pwtext

definition bcrypt_genSalt :: "nat \<Rightarrow> nat \<Rightarrow> salt" where
  "bcrypt_genSalt rounds r = (rounds, r)"

definition bcrypt_hash :: "pwtext \<Rightarrow> salt \<Rightarrow> pwtext" where
  "bcrypt_hash t s = Bcrypt s t"

definition bcrypt_compare :: "string \<Rightarrow> pwtext \<Rightarrow> bool" where
  "bcrypt_compare candidate digest =
     (case digest of Plain _ \<Rightarrow> False | Bcrypt s t \<Rightarrow> t = Plain candidate)"

fun text_length :: "pwtext \<Rightarrow> nat" where
  "text_length (Plain s) = length s"
| "text_length (Bcrypt s t) = 60"

section \<open>Bearer tokens (jsonwebtoken)\<close>

text \<open>
  Decimal numerals, used by the token serialisation.
\<close>

definition digit_char :: "nat \<Rightarrow> char" where
  "digit_char d = char_of (48 + d)"

definition digit_val :: "char \<Rightarrow> nat" where
  "digit_val c = of_char c - 48"

function show_nat :: "nat \<Rightarrow> string" where
  "show_nat n = (if n < 10 then [digit_char n] else show_nat (n div 10) @ [digit_char (n mod 10)])"
  by pat_completeness auto
termination
  by (relation "measure (\<lambda>n. n)") auto

declare show_nat.simps [simp del]

definition parse_nat :: "string \<Rightarrow> nat" where
  "parse_nat s = foldl (\<lambda>a c. 10 * a + digit_val c) 0 s"

record claims =
  c_id :: nat
  c_role :: string
  c_iat :: nat
  c_exp :: nat

datatype jwt_error = JsonWebTokenError | TokenExpiredError | NotBeforeError

definition enc_nat :: "char \<Rightarrow> nat \<Rightarrow> string" where
  "enc_nat sep n = show_nat n @ [sep]"

definition dec_nat :: "char \<Rightarrow> string \<Rightarrow> (nat \<times> string) option" where
  "dec_nat sep s =
     (let ds = takeWhile is_digit s in
      case dropWhile is_digit s of
        [] \<Rightarrow> None
      | c # rest \<Rightarrow> if ds \<noteq> [] \<and> c = sep then Some (parse_nat ds, rest) else None)"

text \<open>
  Modelled from the spec: the serialisation of jsonwebtoken is not part of the sources.
  A token carries the claims identifier, role, issuedAt and expiresAt of the Token
  Service and its signature. The signature is symbolic: it names the key that made it,
  so it verifies under that key and no other. A string that does not parse is malformed.
\<close>

definition jwt_encode :: "claims \<Rightarrow> string \<Rightarrow> string" where
  "jwt_encode c key =
     enc_nat CHR '';'' (c_id c) @ enc_nat CHR '';'' (c_iat c) @ enc_nat CHR '';'' (c_exp c) @
     enc_nat CHR '':'' (length (c_role c)) @ c_role c @ ''.'' @ key"

definition jwt_decode :: "string \<Rightarrow> (claims \<times> string) option" where
  "jwt_decode s =
     (case dec_nat CHR '';'' s of None \<Rightarrow> None | Some (i, s1) \<Rightarrow>
      case dec_nat CHR '';'' s1 of None \<Rightarrow> None | Some (iat, s2) \<Rightarrow>
      case dec_nat CHR '';'' s2 of None \<Rightarrow> None | Some (ex, s3) \<Rightarrow>
      case dec_nat CHR '':'' s3 of None \<Rightarrow> None | Some (n, s4) \<Rightarrow>
      (case drop n s4 of
         [] \<Rightarrow> None
       | d # key \<Rightarrow>
           if length s4 > n \<and> d = CHR ''.''
           then Some (\<lparr>c_id = i, c_role = take n s4, c_iat = iat, c_exp = ex\<rparr>, key)
           else None))"

text \<open>
  Modelled from the spec: \<^verbatim>\<open>jwt.sign\<close> is not part of the sources. As the issue operation of
  the Token Service it serialises the claims identifier, role, issuedAt and
  expiresAt = issuedAt + TTL and signs them with the secret.
\<close>

definition jwt_sign :: "nat \<Rightarrow> string \<Rightarrow> string \<Rightarrow> nat \<Rightarrow> nat \<Rightarrow> string" where
  "jwt_sign ident role secret expiresIn now =
     jwt_encode \<lparr>c_id = ident, c_role = role, c_iat = now, c_exp = now + expiresIn\<rparr> secret"

text \<open>
  Modelled from the spec: \<^verbatim>\<open>jwt.verify\<close> is not part of the sources. As the verify operation
  of the Token Service it fails as malformed when the token cannot be parsed or the
  signature is invalid, fails as expired when the signature is valid and
  expiresAt \<le> now, and returns the claims otherwise.
\<close>

definition jwt_verify :: "string \<Rightarrow> string \<Rightarrow> nat \<Rightarrow> jwt_error + claims" where
  "jwt_verify tok secret now =
     (case jwt_decode tok of
        None \<Rightarrow> Inl JsonWebTokenError
      | Some (c, key) \<Rightarrow>
          if key \<noteq> secret then Inl JsonWebTokenError
          else if c_exp c \<le> now then Inl TokenExpiredError
          else Inr c)"

section \<open>Data model (models/User.js, models/Kid.js)\<close>

text \<open>
  Object identifiers are natural numbers handed out by a counter of the store; time is a
  natural number of seconds. A collection is the list of its documents in insertion
  order, and \<^verbatim>\<open>findOne\<close> returns the first document that matches.
\<close>

record user =
  u_id :: nat
  u_email :: string
  u_password :: "pwtext option"
  u_role :: string
  u_familyCode :: "string option"
  u_parent :: "nat option"
  u_name :: "string option"
  u_kids :: "nat list"
  u_createdAt :: nat

record kid =
  k_id :: nat
  k_name :: string
  k_age :: int
  k_avatarColor :: string
  k_interests :: "string list"
  k_parent :: nat
  k_createdAt :: nat

record db =
  users :: "user list"
  kids :: "kid list"
  next_id :: nat

text \<open>
  The configuration read from the process environment (\<^verbatim>\<open>JWT_SECRET\<close>, and \<^verbatim>\<open>JWT_EXPIRE\<close> as a
  number of seconds), and what one request draws from outside: the clock, the successive
  results of \<^verbatim>\<open>crypto.randomBytes(3)\<close> and the randomness of \<^verbatim>\<open>bcrypt.genSalt\<close>.
\<close>

record config =
  jwt_secret :: string
  jwt_expire :: nat

record env =
  clock :: nat
  random_bytes :: "nat \<Rightarrow> bytes3"
  salt_seed :: nat

datatype call = BcryptGenSalt nat | BcryptHash salt | JwtVerify string | UserFindById nat

subsection \<open>Queries\<close>

definition findOne_email :: "db \<Rightarrow> string \<Rightarrow> user option" where
  "findOne_email st e = find (\<lambda>u. u_email u = e) (users st)"

definition findOne_familyCode :: "db \<Rightarrow> string \<Rightarrow> user option" where
  "findOne_familyCode st c = find (\<lambda>u. u_familyCode u = Some c) (users st)"

definition findById :: "db \<Rightarrow> nat \<Rightarrow> user option" where
  "findById st i = find (\<lambda>u. u_id u = i) (users st)"

definition select_no_password :: "user \<Rightarrow> user" where
  "select_no_password u = u\<lparr>u_password := None\<rparr>"

fun findByIdAndUpdate_push_kids :: "nat \<Rightarrow> nat \<Rightarrow> user list \<Rightarrow> user list" where
  "findByIdAndUpdate_push_kids pid kidId [] = []"
| "findByIdAndUpdate_push_kids pid kidId (u # us) =
     (if u_id u = pid then u\<lparr>u_kids := u_kids u @ [kidId]\<rparr> # us
      else u # findByIdAndUpdate_push_kids pid kidId us)"

subsection \<open>User documents: construction, validation, the pre-save hook, save\<close>

record user_doc =
  d_user :: user
  d_isNew :: bool
  d_modified :: "string list"

record user_input =
  i_email :: string
  i_password :: string
  i_role :: string
  i_familyCode :: "string option"
  i_parent :: "nat option"
  i_name :: "string option"

definition isModified :: "user_doc \<Rightarrow> string \<Rightarrow> bool" where
  "isModified d path = (path \<in> set (d_modified d))"

definition new_User :: "env \<Rightarrow> db \<Rightarrow> user_input \<Rightarrow> user_doc" where
  "new_User e st i =
     \<lparr>d_user =
        \<lparr>u_id = next_id st,
         u_email = trim (toLowerCase (i_email i)),
         u_password = Some (Plain (i_password i)),
         u_role = i_role i,
         u_familyCode = i_familyCode i,
         u_parent = i_parent i,
         u_name = map_option trim (i_name i),
         u_kids = [],
         u_createdAt = clock e\<rparr>,
      d_isNew = True,
      d_modified =
        [''email'', ''password'', ''role''] @
        (if i_familyCode i = None then [] else [''familyCode'']) @
        (if i_parent i = None then [] else [''parent'']) @
        (if i_name i = None then [] else [''name''])\<rparr>"

definition validate_user :: "user \<Rightarrow> string list" where
  \<open>validate_user u =
     (if u_email u = [] then [''Email is required'']
      else if \<not> regex_test email_pattern (u_email u) then [''Please provide a valid email address'']
      else []) @
     (case u_password u of
        None \<Rightarrow> [''Password is required'']
      | Some t \<Rightarrow> if text_length t < 6 then [''Password must be at least 6 characters long''] else []) @
     (if u_role u = ''parent'' \<or> u_role u = ''kid'' then []
      else [''`'' @ u_role u @ ''` is not a valid enum value for path `role`.'']) @
     (case u_name u of
        None \<Rightarrow> []
      | Some n \<Rightarrow> if 50 < length n then [''Name cannot exceed 50 characters''] else [])\<close>

text \<open>
  The hook of lines 66 to 81: nothing happens unless the password path is modified;
  otherwise a salt of 10 rounds is generated and the password replaced by its digest. A
  failure of the hashing (no password to hash) is passed to \<^verbatim>\<open>next\<close>. The second component
  lists the calls made to the hashing library.
\<close>

definition pre_save :: "env \<Rightarrow> user_doc \<Rightarrow> string + (user_doc \<times> call list)" where
  "pre_save e d =
     (if \<not> isModified d ''password'' then Inr (d, [])
      else
        let salt = bcrypt_genSalt 10 (salt_seed e) in
        case u_password (d_user d) of
          None \<Rightarrow> Inl ''Illegal arguments''
        | Some t \<Rightarrow>
            Inr (d\<lparr>d_user := (d_user d)\<lparr>u_password := Some (bcrypt_hash t salt)\<rparr>\<rparr>,
                 [BcryptGenSalt 10, BcryptHash salt]))"

datatype save_error = ValidationError "string list" | OtherError string

definition save :: "env \<Rightarrow> db \<Rightarrow> user_doc \<Rightarrow> save_error + (user_doc \<times> db)" where
  "save e st d =
     (case validate_user (d_user d) of
        m # ms \<Rightarrow> Inl (ValidationError (m # ms))
      | [] \<Rightarrow>
         (case pre_save e d of
            Inl err \<Rightarrow> Inl (OtherError err)
          | Inr (d', calls) \<Rightarrow>
              let saved = d'\<lparr>d_isNew := False, d_modified := []\<rparr> in
              if d_isNew d
              then Inr (saved, st\<lparr>users := users st @ [d_user d'], next_id := Suc (next_id st)\<rparr>)
              else Inr (saved,
                     st\<lparr>users := map (\<lambda>u. if u_id u = u_id (d_user d') then d_user d' else u)
                                     (users st)\<rparr>)))"

definition User_create :: "env \<Rightarrow> db \<Rightarrow> user_input \<Rightarrow> save_error + (user_doc \<times> db)" where
  "User_create e st i = save e st (new_User e st i)"

subsection \<open>Kid documents\<close>

record kid_input =
  ki_name :: string
  ki_age :: int
  ki_parent :: nat

definition validate_kid :: "kid \<Rightarrow> string list" where
  "validate_kid k =
     (if k_name k = [] then [''Kid name is required'']
      else if length (k_name k) < 2 then [''Name must be at least 2 characters long'']
      else if 50 < length (k_name k) then [''Name cannot exceed 50 characters'']
      else []) @
     (if k_age k < 1 then [''Age must be at least 1'']
      else if 18 < k_age k then [''Age cannot exceed 18'']
      else [])"

definition Kid_create :: "env \<Rightarrow> db \<Rightarrow> kid_input \<Rightarrow> save_error + (kid \<times> db)" where
  "Kid_create e st i =
     (let k = \<lparr>k_id = next_id st, k_name = trim (ki_name i), k_age = ki_age i,
               k_avatarColor = ''from-blue-400 to-purple-500'', k_interests = [],
               k_parent = ki_parent i, k_createdAt = clock e\<rparr>
      in case validate_kid k of
           m # ms \<Rightarrow> Inl (ValidationError (m # ms))
         | [] \<Rightarrow> Inr (k, st\<lparr>kids := kids st @ [k], next_id := Suc (next_id st)\<rparr>))"

section \<open>The auth controller: signup and login\<close>

text \<open>
  The fields of the request body as the handler destructures them. A field that is absent,
  \<^verbatim>\<open>undefined\<close> or \<^verbatim>\<open>null\<close> is \<open>None\<close>; the text fields are strings and the age is an integer
  (bodies that put another JSON type in a field are outside the model).
\<close>

record signup_body =
  req_email :: "string option"
  req_password :: "string option"
  req_role :: "string option"
  req_familyCode :: "string option"
  req_name :: "string option"
  req_age :: "int option"

record profile =
  p_id :: nat
  p_email :: string
  p_role :: string
  p_createdAt :: nat
  p_familyCode :: "string option"
  p_name :: "string option"
  p_parentId :: "nat option"
  p_kidId :: "nat option"
  p_age :: "int option"

record response =
  status :: nat
  success :: bool
  message :: "string option"
  token :: "string option"
  data :: "profile option"

definition failure :: "nat \<Rightarrow> string \<Rightarrow> response" where
  "failure code msg =
     \<lparr>status = code, success = False, message = Some msg, token = None, data = None\<rparr>"

definition generateToken :: "config \<Rightarrow> nat \<Rightarrow> nat \<Rightarrow> string \<Rightarrow> string" where
  "generateToken cfg now ident role = jwt_sign ident role (jwt_secret cfg) (jwt_expire cfg) now"

text \<open>
  The loop of lines 100 to 105. The \<open>n\<close>-th draw of the generator is \<open>rnd n\<close>; the loop
  returns the first draw from position \<open>n\<close> on that no stored user holds, and does not
  return (\<open>None\<close>) when there is none.
\<close>

partial_function (option) unique_family_code :: "(nat \<Rightarrow> bytes3) \<Rightarrow> db \<Rightarrow> nat \<Rightarrow> string option" where
  "unique_family_code rnd st n =
     (let userFamilyCode = generateFamilyCode (rnd n) in
      if findOne_familyCode st userFamilyCode = None then Some userFamilyCode
      else unique_family_code rnd st (Suc n))"

text \<open>The catch block of lines 168 to 184.\<close>

definition signup_catch :: "save_error \<Rightarrow> response" where
  "signup_catch err =
     (case err of
        ValidationError messages \<Rightarrow> failure 400 (join '', '' messages)
      | OtherError _ \<Rightarrow> failure 500 ''Error creating user'')"

text \<open>Lines 137 to 167: the token and the role-shaped response.\<close>

definition signup_created :: "config \<Rightarrow> env \<Rightarrow> signup_body \<Rightarrow> user \<Rightarrow> kid option \<Rightarrow> response" where
  "signup_created cfg e body u kidDoc =
     \<lparr>status = 201, success = True, message = Some ''User created successfully'',
      token = Some (generateToken cfg (clock e) (u_id u) (u_role u)),
      data = Some
        \<lparr>p_id = u_id u, p_email = u_email u, p_role = u_role u, p_createdAt = u_createdAt u,
         p_familyCode = (if u_role u = ''parent'' then u_familyCode u else None),
         p_name = (if u_role u = ''kid'' then u_name u else None),
         p_parentId = (if u_role u = ''kid'' then u_parent u else None),
         p_kidId = (if u_role u = ''kid'' then map_option k_id kidDoc else None),
         p_age = (if u_role u = ''kid'' then req_age body else None)\<rparr>\<rparr>"

text \<open>
  Lines 108 to 135: the User document is created first; for a kid the Kid document and the
  update of the parent follow, each a write of its own. The first two definitions are
  the object literals handed to \<^verbatim>\<open>User.create\<close> and \<^verbatim>\<open>Kid.create\<close>.
\<close>

definition signup_user_fields :: "signup_body \<Rightarrow> user option \<Rightarrow> string option \<Rightarrow> user_input" where
  "signup_user_fields body parentUser userFamilyCode =
     \<lparr>i_email = trim (toLowerCase (str (req_email body))),
      i_password = str (req_password body),
      i_role = (if truthy (req_role body) then str (req_role body) else ''parent''),
      i_familyCode =
        (if req_role body = Some ''kid''
         then (case parentUser of None \<Rightarrow> None | Some p \<Rightarrow> u_familyCode p)
         else userFamilyCode),
      i_parent = map_option u_id parentUser,
      i_name = (if req_role body = Some ''kid'' then req_name body else None)\<rparr>"

definition signup_kid_fields :: "signup_body \<Rightarrow> user \<Rightarrow> kid_input" where
  "signup_kid_fields body parentUser =
     \<lparr>ki_name = str (req_name body),
      ki_age = (case req_age body of None \<Rightarrow> 0 | Some a \<Rightarrow> a),
      ki_parent = u_id parentUser\<rparr>"

definition signup_create ::
  "config \<Rightarrow> env \<Rightarrow> signup_body \<Rightarrow> db \<Rightarrow> user option \<Rightarrow> string option \<Rightarrow> response \<times> db" where
  "signup_create cfg e body st parentUser userFamilyCode =
     (case User_create e st (signup_user_fields body parentUser userFamilyCode) of
        Inl err \<Rightarrow> (signup_catch err, st)
      | Inr (doc, st1) \<Rightarrow>
          (case (if req_role body = Some ''kid'' then parentUser else None) of
             None \<Rightarrow> (signup_created cfg e body (d_user doc) None, st1)
           | Some p \<Rightarrow>
               (case Kid_create e st1 (signup_kid_fields body p) of
                  Inl err \<Rightarrow> (signup_catch err, st1)
                | Inr (kidDoc, st2) \<Rightarrow>
                    (signup_created cfg e body (d_user doc) (Some kidDoc),
                     st2\<lparr>users := findByIdAndUpdate_push_kids (u_id p) (k_id kidDoc) (users st2)\<rparr>))))"

text \<open>
  Lines 29 to 83: the input checks, each answering the request when it fails; \<open>None\<close>
  when all of them pass.
\<close>

definition signup_checks :: "signup_body \<Rightarrow> db \<Rightarrow> response option" where
  \<open>signup_checks body st =
     (let email = req_email body; password = req_password body; role = req_role body;
          familyCode = req_familyCode body; name = req_name body; age = req_age body in
      if \<not> truthy email \<or> \<not> truthy password
      then Some (failure 400 ''Please provide email and password'')
      else if length (str password) < 6
      then Some (failure 400 ''Password must be at least 6 characters long'')
      else if truthy role \<and> str role \<noteq> ''parent'' \<and> str role \<noteq> ''kid''
      then Some (failure 400 ''Role must be either "parent" or "kid"'')
      else if role = Some ''kid'' \<and> \<not> truthy familyCode
      then Some (failure 400 ''Family code is required for kid signup'')
      else if role = Some ''kid'' \<and> \<not> truthy name
      then Some (failure 400 ''Name is required for kid signup'')
      else if role = Some ''kid'' \<and> \<not> truthy_num age
      then Some (failure 400 ''Age is required for kid signup'')
      else
        case findOne_email st (trim (toLowerCase (str email))) of
          Some existingUser \<Rightarrow> Some (failure 409 ''User with this email already exists'')
        | None \<Rightarrow> None)\<close>

text \<open>
  The handler. The result is the response with the store it leaves, or \<open>None\<close> when the
  handler never responds (the loop that draws a code does not end). An input check that
  fails answers at once and writes nothing; lines 85 to 106 then resolve the parent of a
  kid or draw a fresh code for a parent.
\<close>

definition signup :: "config \<Rightarrow> env \<Rightarrow> signup_body \<Rightarrow> db \<Rightarrow> (response \<times> db) option" where
  "signup cfg e body st =
     (case signup_checks body st of
        Some answer \<Rightarrow> Some (answer, st)
      | None \<Rightarrow>
          if req_role body = Some ''kid'' then
            (case findOne_familyCode st (toUpperCase (str (req_familyCode body))) of
               None \<Rightarrow> Some (failure 400 ''Invalid family code. Please check with your parent.'', st)
             | Some parentUser \<Rightarrow> Some (signup_create cfg e body st (Some parentUser) None))
          else
            (case unique_family_code (random_bytes e) st 0 of
               None \<Rightarrow> None
             | Some userFamilyCode \<Rightarrow>
                 Some (signup_create cfg e body st None (Some userFamilyCode))))"

record login_body =
  l_email :: "string option"
  l_password :: "string option"

definition login :: "config \<Rightarrow> env \<Rightarrow> login_body \<Rightarrow> db \<Rightarrow> response" where
  "login cfg e body st =
     (let email = l_email body; password = l_password body in
      if \<not> truthy email \<or> \<not> truthy password
      then failure 400 ''Please provide email and password''
      else
        case findOne_email st (trim (toLowerCase (str email))) of
          None \<Rightarrow> failure 401 ''Invalid email or password''
        | Some u \<Rightarrow>
            (case u_password u of
               None \<Rightarrow> failure 500 ''Error logging in''
             | Some digest \<Rightarrow>
                 if \<not> bcrypt_compare (str password) digest
                 then failure 401 ''Invalid email or password''
                 else
                   \<lparr>status = 200, success = True, message = Some ''Login successful'',
                    token = Some (generateToken cfg (clock e) (u_id u) (u_role u)),
                    data = Some
                      \<lparr>p_id = u_id u, p_email = u_email u, p_role = u_role u,
                       p_createdAt = u_createdAt u, p_familyCode = None, p_name = None,
                       p_parentId = None, p_kidId = None, p_age = None\<rparr>\<rparr>))"

section \<open>The auth middleware (middleware/auth.js)\<close>

text \<open>
  The middleware either answers the request itself or calls \<^verbatim>\<open>next\<close> with the loaded user
  attached. The second component of the result lists, in order, the calls it made to the
  token library and to the user collection.
\<close>

datatype auth_result = Responded response | Next user

definition auth :: "config \<Rightarrow> nat \<Rightarrow> db \<Rightarrow> string option \<Rightarrow> auth_result \<times> call list" where
  "auth cfg now st authHeader =
     (if \<not> truthy authHeader
      then (Responded (failure 401 ''No authorization token provided''), [])
      else if \<not> startsWith (str authHeader) ''Bearer ''
      then (Responded (failure 401 ''Invalid token format. Use: Bearer <token>''), [])
      else
        let tok = substring (str authHeader) 7 in
        if tok = [] then (Responded (failure 401 ''No token found''), [])
        else
          case jwt_verify tok (jwt_secret cfg) now of
            Inl JsonWebTokenError \<Rightarrow> (Responded (failure 401 ''Invalid token''), [JwtVerify tok])
          | Inl TokenExpiredError \<Rightarrow> (Responded (failure 401 ''Token has expired''), [JwtVerify tok])
          | Inl NotBeforeError \<Rightarrow> (Responded (failure 500 ''Authentication failed''), [JwtVerify tok])
          | Inr decoded \<Rightarrow>
              (case findById st (c_id decoded) of
                 None \<Rightarrow>
                   (Responded (failure 401 ''User not found''),
                    [JwtVerify tok, UserFindById (c_id decoded)])
               | Some u \<Rightarrow>
                   (Next (select_no_password u), [JwtVerify tok, UserFindById (c_id decoded)])))"

section \<open>The validation order as the specification words it\<close>

text \<open>
  The five checks of the Auth Flow Controller in the order of the specification, each
  with the answer given when it fails; the first failing check decides.
\<close>

definition normalized_email :: "string \<Rightarrow> string" where
  "normalized_email s = trim (toLowerCase s)"

definition spec_signup_checks :: "signup_body \<Rightarrow> db \<Rightarrow> (bool \<times> response) list" where
  \<open>spec_signup_checks body st =
     [(truthy (req_email body) \<and> truthy (req_password body),
         failure 400 ''Please provide email and password''),
      (6 \<le> length (str (req_password body)),
         failure 400 ''Password must be at least 6 characters long''),
      (\<not> truthy (req_role body) \<or> req_role body = Some ''parent'' \<or> req_role body = Some ''kid'',
         failure 400 ''Role must be either "parent" or "kid"''),
      (req_role body \<noteq> Some ''kid'' \<or> truthy (req_familyCode body),
         failure 400 ''Family code is required for kid signup''),
      (req_role body \<noteq> Some ''kid'' \<or> truthy (req_name body),
         failure 400 ''Name is required for kid signup''),
      (req_role body \<noteq> Some ''kid'' \<or> truthy_num (req_age body),
         failure 400 ''Age is required for kid signup''),
      (\<not> list_ex (\<lambda>u. normalized_email (u_email u) = normalized_email (str (req_email body)))
             (users st),
         failure 409 ''User with this email already exists'')]\<close>

definition first_failure :: "(bool \<times> response) list \<Rightarrow> response option" where
  "first_failure checks = map_option snd (find (\<lambda>c. \<not> fst c) checks)"

section \<open>Invariants of the store\<close>

text \<open>
  Stored e-mails are in normal form (lower case, trimmed), and the first holder of every
  family code in the collection is a parent. Both hold of the empty store and are kept by
  every signup, as proved below; the other handlers of the repository write only the
  kids list of a user, and no handler deletes a user.
\<close>

definition emails_normalized :: "db \<Rightarrow> bool" where
  "emails_normalized st = list_all (\<lambda>u. normalized_email (u_email u) = u_email u) (users st)"

definition first_holder_is_parent :: "db \<Rightarrow> bool" where
  "first_holder_is_parent st =
     list_all (\<lambda>u. case u_familyCode u of
                     None \<Rightarrow> True
                   | Some c \<Rightarrow> (case findOne_familyCode st c of
                                  None \<Rightarrow> False
                                | Some p \<Rightarrow> u_role p = ''parent''))
              (users st)"

definition owned_by_parent :: "db \<Rightarrow> string \<Rightarrow> bool" where
  "owned_by_parent st c = list_ex (\<lambda>u. u_role u = ''parent'' \<and> u_familyCode u = Some c) (users st)"

text \<open>
  What signup fixes of the user it creates: the identifier, the e-mail, the role and the
  family code, from the request, the resolved parent and the drawn code.
\<close>

definition created_user :: "env \<Rightarrow> db \<Rightarrow> signup_body \<Rightarrow> user option \<Rightarrow> string option \<Rightarrow> user \<Rightarrow> bool" where
  "created_user e st body pu code u \<longleftrightarrow>
     u_id u = next_id st \<and>
     u_email u = trim (toLowerCase (trim (toLowerCase (str (req_email body))))) \<and>
     u_role u = (if truthy (req_role body) then str (req_role body) else ''parent'') \<and>
     u_familyCode u =
       (if req_role body = Some ''kid''
        then (case pu of None \<Rightarrow> None | Some p \<Rightarrow> u_familyCode p) else code)"

section \<open>Sample configuration, requests and stores\<close>

text \<open>
  Concrete values at which the theorems below are instantiated: a store holding one
  parent with the code A3F200, a generator that draws A3F200, A3F201, ... in turn, and a
  store whose one user holds the code 000000.
\<close>

definition ex_cfg :: config where
  "ex_cfg = \<lparr>jwt_secret = ''s3cret'', jwt_expire = 60\<rparr>"

definition ex_env :: env where
  "ex_env = \<lparr>clock = 100, random_bytes = (\<lambda>n. (0xA3, 0xF2, of_nat n)), salt_seed = 5\<rparr>"

definition ex_parent :: user where
  "ex_parent =
     \<lparr>u_id = 0, u_email = ''a@x.com'', u_password = Some (Bcrypt (10, 5) (Plain ''secret1'')),
      u_role = ''parent'', u_familyCode = Some ''A3F200'', u_parent = None, u_name = None,
      u_kids = [], u_createdAt = 100\<rparr>"

definition empty_db :: db where
  "empty_db = \<lparr>users = [], kids = [], next_id = 0\<rparr>"

definition ex_db :: db where
  "ex_db = \<lparr>users = [ex_parent], kids = [], next_id = 1\<rparr>"

definition ex_input :: user_input where
  "ex_input =
     \<lparr>i_email = ''a@x.com'', i_password = ''secret1'', i_role = ''parent'',
      i_familyCode = Some ''A3F200'', i_parent = None, i_name = None\<rparr>"

definition ex_claims :: claims where
  "ex_claims = \<lparr>c_id = 0, c_role = ''parent'', c_iat = 100, c_exp = 160\<rparr>"


definition ex_kid_body :: signup_body where
  "ex_kid_body =
     \<lparr>req_email = Some ''k1@x.com'', req_password = Some ''secret1'', req_role = Some ''kid'',
      req_familyCode = Some ''a3f200'', req_name = Some ''Al'', req_age = Some 10\<rparr>"

definition ex_parent_body :: signup_body where
  "ex_parent_body =
     \<lparr>req_email = Some ''P2@x.com '', req_password = Some ''secret1'', req_role = None,
      req_familyCode = None, req_name = None, req_age = None\<rparr>"

definition ex_unknown_body :: signup_body where
  "ex_unknown_body = ex_kid_body\<lparr>req_familyCode := Some ''zzzzzz''\<rparr>"

section \<open>Facts about the generator\<close>

lemma upper_hex_digit:
  "n < 16 \<Longrightarrow> (of_char (upper_char (hex_digit n)) :: nat) = (if n < 10 then 48 + n else 55 + n)"
  by (simp add: upper_char_def hex_digit_def is_lower_def)

lemma upper_hex_digit_inj:
  assumes "m < 16" "n < 16" "upper_char (hex_digit m) = upper_char (hex_digit n)"
  shows "m = n"
proof -
  have "(of_char (upper_char (hex_digit m)) :: nat) = of_char (upper_char (hex_digit n))"
    using assms(3) by simp
  then show ?thesis
    using assms(1,2) by (simp add: upper_hex_digit split: if_splits)
qed

lemma upper_hex_digit_class: "n < 16 \<Longrightarrow> is_upper_hex (upper_char (hex_digit n))"
  by (auto simp: is_upper_hex_def is_digit_def upper_hex_digit)

lemma hex_subset_alnum: "is_upper_hex c \<Longrightarrow> is_upper_alnum c"
  by (auto simp: is_upper_hex_def is_upper_alnum_def is_upper_def)

lemma generateFamilyCode_expand:
  "generateFamilyCode (a, b, c) =
    [upper_char (hex_digit (unat a div 16)), upper_char (hex_digit (unat a mod 16)),
     upper_char (hex_digit (unat b div 16)), upper_char (hex_digit (unat b mod 16)),
     upper_char (hex_digit (unat c div 16)), upper_char (hex_digit (unat c mod 16))]"
  by (simp add: generateFamilyCode_def toString_hex_def byte_to_hex_def toUpperCase_def)

lemma byte_nibbles: "unat (b :: byte) div 16 < 16" "unat b mod 16 < 16"
proof -
  have "unat b < 256" using unsigned_less [of b, where ?'a = nat] by simp
  then show "unat b div 16 < 16" by simp
  show "unat b mod 16 < 16" by simp
qed

lemma byte_eq_nibbles:
  assumes "unat (a :: byte) div 16 = unat (b :: byte) div 16" "unat a mod 16 = unat b mod 16"
  shows "a = b"
proof -
  have "unat a = 16 * (unat a div 16) + unat a mod 16" by simp
  also have "\<dots> = 16 * (unat b div 16) + unat b mod 16" using assms by simp
  also have "\<dots> = unat b" by simp
  finally show ?thesis by (simp add: word_unat_eq_iff)
qed

lemma generateFamilyCode_inj: "inj generateFamilyCode"
proof (rule injI)
  fix x y :: bytes3
  assume eq: "generateFamilyCode x = generateFamilyCode y"
  obtain a b c where x: "x = (a, b, c)" by (cases x)
  obtain a' b' c' where y: "y = (a', b', c')" by (cases y)
  from eq have
    "unat a div 16 = unat a' div 16" "unat a mod 16 = unat a' mod 16"
    "unat b div 16 = unat b' div 16" "unat b mod 16 = unat b' mod 16"
    "unat c div 16 = unat c' div 16" "unat c mod 16 = unat c' mod 16"
    unfolding x y generateFamilyCode_expand
    by (auto intro: upper_hex_digit_inj byte_nibbles)
  then show "x = y" unfolding x y by (simp add: byte_eq_nibbles)
qed

lemma card_bytes3: "card (UNIV :: bytes3 set) = 16 ^ 6"
proof -
  have b: "card (UNIV :: byte set) = 256" by (simp add: card_word)
  have "(UNIV :: bytes3 set) = UNIV \<times> UNIV \<times> UNIV" by simp
  then have "card (UNIV :: bytes3 set) =
      card ((UNIV :: byte set) \<times> (UNIV :: byte set) \<times> (UNIV :: byte set))"
    by simp
  also have "\<dots> = 256 * (256 * 256)" unfolding card_cartesian_product b ..
  finally show ?thesis by simp
qed

lemma card_family_code_space: "card family_code_space = 16 ^ 6"
  unfolding family_code_space_def
  by (simp only: card_image [OF generateFamilyCode_inj] card_bytes3)

lemma generateFamilyCode_shape:
  "length (generateFamilyCode r) = 6 \<and> list_all is_upper_hex (generateFamilyCode r)"
  by (cases r) (simp add: generateFamilyCode_expand upper_hex_digit_class byte_nibbles)

section \<open>Facts about the token serialisation\<close>

lemma digit_char_is_digit: "d < 10 \<Longrightarrow> is_digit (digit_char d)"
  by (simp add: is_digit_def digit_char_def)

lemma digit_val_digit_char: "d < 10 \<Longrightarrow> digit_val (digit_char d) = d"
  by (simp add: digit_val_def digit_char_def)

lemma show_nat_digits: "list_all is_digit (show_nat n)"
proof (induction n rule: show_nat.induct)
  case (1 n)
  show ?case
  proof (cases "n < 10")
    case True
    then show ?thesis by (subst show_nat.simps) (simp add: digit_char_is_digit)
  next
    case False
    with 1 show ?thesis by (subst show_nat.simps) (simp add: digit_char_is_digit)
  qed
qed

lemma show_nat_nonempty: "show_nat n \<noteq> []"
  by (subst show_nat.simps) simp

lemma parse_nat_snoc: "parse_nat (s @ [c]) = 10 * parse_nat s + digit_val c"
  by (simp add: parse_nat_def)

lemma parse_show_nat: "parse_nat (show_nat n) = n"
proof (induction n rule: show_nat.induct)
  case (1 n)
  show ?case
  proof (cases "n < 10")
    case True
    then show ?thesis
      by (subst show_nat.simps) (simp add: parse_nat_def digit_val_digit_char)
  next
    case False
    with 1 have "parse_nat (show_nat (n div 10)) = n div 10" by simp
    with False show ?thesis
      by (subst show_nat.simps) (simp add: parse_nat_snoc digit_val_digit_char)
  qed
qed

lemma takeWhile_digits:
  "list_all is_digit ds \<Longrightarrow> \<not> is_digit c \<Longrightarrow> takeWhile is_digit (ds @ c # rest) = ds"
  by (induction ds) simp_all

lemma dropWhile_digits:
  "list_all is_digit ds \<Longrightarrow> \<not> is_digit c \<Longrightarrow> dropWhile is_digit (ds @ c # rest) = c # rest"
  by (induction ds) simp_all

lemma dec_enc_nat:
  assumes "\<not> is_digit sep"
  shows "dec_nat sep (enc_nat sep n @ rest) = Some (n, rest)"
  using assms
  by (simp add: dec_nat_def enc_nat_def takeWhile_digits dropWhile_digits show_nat_digits
      show_nat_nonempty parse_show_nat)

lemma jwt_decode_encode: "jwt_decode (jwt_encode c key) = Some (c, key)"
proof -
  have s: "\<not> is_digit CHR '';''" "\<not> is_digit CHR '':''"
    by (simp_all add: is_digit_def)
  show ?thesis
    by (simp add: jwt_decode_def jwt_encode_def dec_enc_nat [OF s(1)] dec_enc_nat [OF s(2)])
qed

lemma jwt_encode_nonempty: "jwt_encode c key \<noteq> []"
  by (simp add: jwt_encode_def enc_nat_def)

lemma jwt_verify_encode:
  "jwt_verify (jwt_encode c key) secret now =
     (if key \<noteq> secret then Inl JsonWebTokenError
      else if c_exp c \<le> now then Inl TokenExpiredError else Inr c)"
  by (simp add: jwt_verify_def jwt_decode_encode)

lemma auth_bearer:
  "tok \<noteq> [] \<Longrightarrow> auth cfg now st (Some (''Bearer '' @ tok)) =
     (case jwt_verify tok (jwt_secret cfg) now of
        Inl JsonWebTokenError \<Rightarrow> (Responded (failure 401 ''Invalid token''), [JwtVerify tok])
      | Inl TokenExpiredError \<Rightarrow> (Responded (failure 401 ''Token has expired''), [JwtVerify tok])
      | Inl NotBeforeError \<Rightarrow> (Responded (failure 500 ''Authentication failed''), [JwtVerify tok])
      | Inr decoded \<Rightarrow>
          (case findById st (c_id decoded) of
             None \<Rightarrow>
               (Responded (failure 401 ''User not found''),
                [JwtVerify tok, UserFindById (c_id decoded)])
           | Some u \<Rightarrow>
               (Next (select_no_password u), [JwtVerify tok, UserFindById (c_id decoded)])))"
  by (simp add: auth_def truthy_def str_def startsWith_def substring_def)

section \<open>Facts about the loop that draws a family code\<close>

lemma loop_unfold:
  "unique_family_code rnd st n =
     (if findOne_familyCode st (generateFamilyCode (rnd n)) = None
      then Some (generateFamilyCode (rnd n))
      else unique_family_code rnd st (Suc n))"
  by (subst unique_family_code.simps) (simp add: Let_def)

lemma loop_returns_first_unused:
  assumes "findOne_familyCode st (generateFamilyCode (rnd (n + k))) = None"
    and "\<forall>j<k. findOne_familyCode st (generateFamilyCode (rnd (n + j))) \<noteq> None"
  shows "unique_family_code rnd st n = Some (generateFamilyCode (rnd (n + k)))"
  using assms
proof (induction k arbitrary: n)
  case 0
  then show ?case by (subst loop_unfold) simp
next
  case (Suc k)
  have used: "findOne_familyCode st (generateFamilyCode (rnd n)) \<noteq> None"
    using Suc.prems(2) [rule_format, of 0] by simp
  have "unique_family_code rnd st (Suc n) = Some (generateFamilyCode (rnd (Suc n + k)))"
  proof (rule Suc.IH)
    show "findOne_familyCode st (generateFamilyCode (rnd (Suc n + k))) = None"
      using Suc.prems(1) by simp
    show "\<forall>j<k. findOne_familyCode st (generateFamilyCode (rnd (Suc n + j))) \<noteq> None"
      using Suc.prems(2) [rule_format, of "Suc j" for j] by simp
  qed
  with used show ?case by (subst loop_unfold) auto
qed

lemma loop_result_is_first_unused:
  assumes "unique_family_code rnd st n = Some c"
  shows "\<exists>k. c = generateFamilyCode (rnd (n + k)) \<and>
             findOne_familyCode st (generateFamilyCode (rnd (n + k))) = None \<and>
             (\<forall>j<k. findOne_familyCode st (generateFamilyCode (rnd (n + j))) \<noteq> None)"
  using assms
proof (induction rule: unique_family_code.raw_induct [rotated 1, consumes 1])
  case (1 loop rnd st n c)
  show ?case
  proof (cases "findOne_familyCode st (generateFamilyCode (rnd n)) = None")
    case True
    with 1(2) have "c = generateFamilyCode (rnd (n + 0))" by (simp add: Let_def)
    with True show ?thesis by (intro exI [of _ 0]) simp
  next
    case False
    with 1(2) have "loop rnd st (Suc n) = Some c" by (simp add: Let_def)
    from 1(1) [OF this] obtain k where k:
      "c = generateFamilyCode (rnd (Suc n + k))"
      "findOne_familyCode st (generateFamilyCode (rnd (Suc n + k))) = None"
      "\<forall>j<k. findOne_familyCode st (generateFamilyCode (rnd (Suc n + j))) \<noteq> None"
      by blast
    have "\<forall>j<Suc k. findOne_familyCode st (generateFamilyCode (rnd (n + j))) \<noteq> None"
    proof (intro allI impI)
      fix j assume "j < Suc k"
      show "findOne_familyCode st (generateFamilyCode (rnd (n + j))) \<noteq> None"
      proof (cases j)
        case 0
        with False show ?thesis by simp
      next
        case (Suc i)
        with \<open>j < Suc k\<close> k(3) show ?thesis by simp
      qed
    qed
    with k(1,2) show ?thesis by (intro exI [of _ "Suc k"]) simp
  qed
qed

lemma loop_diverges:
  assumes "\<forall>k. findOne_familyCode st (generateFamilyCode (rnd (n + k))) \<noteq> None"
  shows "unique_family_code rnd st n = None"
proof (cases "unique_family_code rnd st n")
  case None
  then show ?thesis .
next
  case (Some c)
  from loop_result_is_first_unused [OF this] assms show ?thesis by blast
qed


section \<open>Facts about the handlers and the sample data\<close>


lemma signup_checks_failure:
  "signup_checks body st = Some r \<Longrightarrow> success r = False \<and> status r \<noteq> 201"
  by (auto simp: signup_checks_def failure_def Let_def split: if_splits option.splits)

lemma signup_parent_branch:
  assumes "signup_checks body st = None" "req_role body \<noteq> Some ''kid''"
  shows "signup cfg e body st =
     (case unique_family_code (random_bytes e) st 0 of
        None \<Rightarrow> None
      | Some c \<Rightarrow> Some (signup_create cfg e body st None (Some c)))"
  using assms by (simp add: signup_def)

lemma signup_kid_branch:
  assumes "signup_checks body st = None" "req_role body = Some ''kid''"
  shows "signup cfg e body st =
     (case findOne_familyCode st (toUpperCase (str (req_familyCode body))) of
        None \<Rightarrow> Some (failure 400 ''Invalid family code. Please check with your parent.'', st)
      | Some parentUser \<Rightarrow> Some (signup_create cfg e body st (Some parentUser) None))"
  using assms by (simp add: signup_def)

lemmas eval_code = generateFamilyCode_expand hex_digit_def upper_char_def is_lower_def
  char_of_def bit_Suc_0_iff

lemma draw0: "generateFamilyCode (random_bytes ex_env 0) = ''A3F200''"
  by (simp add: ex_env_def eval_code)

lemma draw1: "generateFamilyCode (random_bytes ex_env 1) = ''A3F201''"
  by (simp add: ex_env_def eval_code)



lemma draw_max: "generateFamilyCode (255, 255, 255) = ''FFFFFF''"
  by (simp add: eval_code)



lemma ex_db_code_used: "findOne_familyCode ex_db ''A3F200'' = Some ex_parent"
  by (simp add: findOne_familyCode_def ex_db_def ex_parent_def)

lemma ex_db_code_free: "findOne_familyCode ex_db ''A3F201'' = None"
  by (simp add: findOne_familyCode_def ex_db_def ex_parent_def)

lemma find_SomeD: "find P xs = Some x \<Longrightarrow> x \<in> set xs \<and> P x"
  by (induction xs) (auto split: if_splits)

lemma truthy_str: "truthy v \<Longrightarrow> (str v = s) = (v = Some s)"
  by (auto simp: truthy_def str_def split: option.splits)

lemma email_check_refines:
  assumes "emails_normalized st"
  shows "(findOne_email st (trim (toLowerCase s)) = None) \<longleftrightarrow>
         \<not> list_ex (\<lambda>u. normalized_email (u_email u) = normalized_email s) (users st)"
  using assms
  by (auto simp: findOne_email_def find_None_iff list_ex_iff emails_normalized_def
      list_all_iff normalized_email_def)

lemma signup_checks_refines_spec:
  assumes "emails_normalized st"
  shows "signup_checks body st = first_failure (spec_signup_checks body st)"
proof -
  have e: "(findOne_email st (trim (toLowerCase (str (req_email body)))) = None) \<longleftrightarrow>
      \<not> list_ex (\<lambda>u. normalized_email (u_email u) = normalized_email (str (req_email body))) (users st)"
    by (rule email_check_refines [OF assms])
  have r: "(truthy (req_role body) \<and> str (req_role body) \<noteq> ''parent'' \<and> str (req_role body) \<noteq> ''kid'')
      \<longleftrightarrow> \<not> (\<not> truthy (req_role body) \<or> req_role body = Some ''parent'' \<or> req_role body = Some ''kid'')"
    using truthy_str [of "req_role body"] by auto
  show ?thesis
    unfolding signup_checks_def first_failure_def spec_signup_checks_def Let_def r
    using e by (auto split: option.splits)
qed

subsection \<open>What creating the account can do\<close>

lemma join_hd: "m \<noteq> [] \<Longrightarrow> hd (join sep (m # ms)) = hd m"
  by (cases ms) auto

lemma validate_user_first_char:
  "validate_user u = m # ms \<Longrightarrow> m \<noteq> [] \<and> hd m \<noteq> CHR ''I''"
  by (auto simp: validate_user_def Cons_eq_append_conv split: if_splits option.splits)

lemma validate_kid_first_char:
  "validate_kid k = m # ms \<Longrightarrow> m \<noteq> [] \<and> hd m \<noteq> CHR ''I''"
  by (auto simp: validate_kid_def Cons_eq_append_conv split: if_splits)

lemma messages_differ:
  assumes "m \<noteq> [] \<and> hd m \<noteq> CHR ''I''"
  shows "signup_catch (ValidationError (m # ms)) \<noteq>
         failure 400 ''Invalid family code. Please check with your parent.''"
proof
  assume "signup_catch (ValidationError (m # ms)) =
         failure 400 ''Invalid family code. Please check with your parent.''"
  then have "join '', '' (m # ms) = ''Invalid family code. Please check with your parent.''"
    by (simp add: signup_catch_def failure_def)
  then have "hd (join '', '' (m # ms)) = CHR ''I''" by simp
  with assms show False by (simp add: join_hd)
qed

lemma new_User_password:
  "isModified (new_User e st i) ''password'' \<and>
   u_password (d_user (new_User e st i)) = Some (Plain (i_password i)) \<and>
   d_isNew (new_User e st i)"
  by (simp add: new_User_def isModified_def)

lemma User_create_Inl:
  assumes "User_create e st i = Inl err"
  shows "\<exists>m ms. err = ValidationError (m # ms) \<and> validate_user (d_user (new_User e st i)) = m # ms"
  using assms new_User_password [of e st i]
  by (auto simp: User_create_def save_def pre_save_def Let_def split: list.splits)

lemma User_create_Inr:
  assumes "User_create e st i = Inr (doc, st1)"
  shows "d_user doc = (d_user (new_User e st i))
            \<lparr>u_password := Some (Bcrypt (10, salt_seed e) (Plain (i_password i)))\<rparr> \<and>
         st1 = st\<lparr>users := users st @ [d_user doc], next_id := Suc (next_id st)\<rparr>"
  using assms new_User_password [of e st i]
  by (auto simp: User_create_def save_def pre_save_def Let_def bcrypt_genSalt_def bcrypt_hash_def
      split: list.splits)

lemma Kid_create_Inl:
  assumes "Kid_create e st i = Inl err"
  shows "\<exists>k m ms. err = ValidationError (m # ms) \<and> validate_kid k = m # ms"
  using assms by (auto simp: Kid_create_def Let_def split: list.splits)

lemma Kid_create_Inr:
  assumes "Kid_create e st i = Inr (k, st1)"
  shows "users st1 = users st \<and> kids st1 = kids st @ [k] \<and> k_id k = next_id st \<and>
         next_id st1 = Suc (next_id st)"
  using assms by (auto simp: Kid_create_def Let_def split: list.splits)

lemma signup_catch_status: "status (signup_catch err) \<noteq> 201 \<and> success (signup_catch err) = False"
  by (cases err) (simp_all add: signup_catch_def failure_def)

lemma signup_create_outcome:
  obtains
    (rejected) m ms where
      "signup_create cfg e body st pu code = (signup_catch (ValidationError (m # ms)), st)"
      "m \<noteq> []" "hd m \<noteq> CHR ''I''"
  | (half) u st1 m ms where
      "signup_create cfg e body st pu code = (signup_catch (ValidationError (m # ms)), st1)"
      "users st1 = users st @ [u]" "created_user e st body pu code u"
      "m \<noteq> []" "hd m \<noteq> CHR ''I''"
  | (alone) u st1 where
      "signup_create cfg e body st pu code = (signup_created cfg e body u None, st1)"
      "users st1 = users st @ [u]" "created_user e st body pu code u"
  | (linked) u st1 p k where
      "signup_create cfg e body st pu code = (signup_created cfg e body u (Some k), st1)"
      "users st1 = findByIdAndUpdate_push_kids (u_id p) (k_id k) (users st @ [u])"
      "created_user e st body pu code u" "pu = Some p" "req_role body = Some ''kid''"
proof -
  let ?i = "signup_user_fields body pu code"
  show ?thesis
  proof (cases "User_create e st ?i")
    case (Inl err)
    from User_create_Inl [OF Inl] obtain m ms where
      "err = ValidationError (m # ms)" "m \<noteq> [] \<and> hd m \<noteq> CHR ''I''"
      using validate_user_first_char by blast
    with Inl have "signup_create cfg e body st pu code = (signup_catch (ValidationError (m # ms)), st)"
      by (simp add: signup_create_def)
    then show ?thesis using \<open>m \<noteq> [] \<and> hd m \<noteq> CHR ''I''\<close> by (intro rejected [of m ms]) simp_all
  next
    case (Inr res)
    obtain doc st1 where res: "res = (doc, st1)" by (cases res)
    note uc = User_create_Inr [OF Inr [unfolded res]]
    from uc have st1: "users st1 = users st @ [d_user doc]"
      by simp
    from uc have cu: "created_user e st body pu code (d_user doc)"
      by (simp add: created_user_def new_User_def signup_user_fields_def)
    show ?thesis
    proof (cases "if req_role body = Some ''kid'' then pu else None")
      case None
      with Inr res have "signup_create cfg e body st pu code =
          (signup_created cfg e body (d_user doc) None, st1)"
        by (simp add: signup_create_def)
      then show ?thesis using st1 cu by (rule alone)
    next
      case (Some p)
      then have kid: "req_role body = Some ''kid''" "pu = Some p" by (auto split: if_splits)
      let ?k = "signup_kid_fields body p"
      show ?thesis
      proof (cases "Kid_create e st1 ?k")
        case (Inl err)
        from Kid_create_Inl [OF Inl] obtain m ms where
          m: "err = ValidationError (m # ms)" "m \<noteq> [] \<and> hd m \<noteq> CHR ''I''"
          using validate_kid_first_char by blast
        with Inl \<open>User_create e st ?i = Inr res\<close> res kid have
          "signup_create cfg e body st pu code = (signup_catch (ValidationError (m # ms)), st1)"
          by (simp add: signup_create_def)
        then show ?thesis using st1 cu m(2) by (intro half [of m ms st1 "d_user doc"]) simp_all
      next
        case (Inr kres)
        obtain k st2 where kres: "kres = (k, st2)" by (cases kres)
        from Kid_create_Inr [OF Inr [unfolded kres]] have st2: "users st2 = users st1" by simp
        let ?st' = "st2\<lparr>users := findByIdAndUpdate_push_kids (u_id p) (k_id k) (users st2)\<rparr>"
        from Inr kres \<open>User_create e st ?i = Inr res\<close> res kid have sc:
          "signup_create cfg e body st pu code =
             (signup_created cfg e body (d_user doc) (Some k), ?st')"
          by (simp add: signup_create_def)
        have us: "users ?st' = findByIdAndUpdate_push_kids (u_id p) (k_id k) (users st @ [d_user doc])"
          using st1 st2 by simp
        show ?thesis by (rule linked [OF sc us cu kid(2) kid(1)])
      qed
    qed
  qed
qed

lemma push_kids_length [simp]: "length (findByIdAndUpdate_push_kids pid k xs) = length xs"
  by (induction xs) simp_all

lemma push_kids_append:
  "\<exists>x\<in>set xs. u_id x = pid \<Longrightarrow>
   findByIdAndUpdate_push_kids pid k (xs @ ys) = findByIdAndUpdate_push_kids pid k xs @ ys"
  by (induction xs) auto

lemma push_kids_emails:
  "map u_email (findByIdAndUpdate_push_kids pid k xs) = map u_email xs"
  by (induction xs) simp_all

lemma push_kids_codes:
  "map u_familyCode (findByIdAndUpdate_push_kids pid k xs) = map u_familyCode xs"
  by (induction xs) simp_all

lemma push_kids_holder_role:
  "map_option u_role (find (\<lambda>u. u_familyCode u = Some c) (findByIdAndUpdate_push_kids pid k xs)) =
   map_option u_role (find (\<lambda>u. u_familyCode u = Some c) xs)"
  by (induction xs) simp_all

lemma signup_created_fields:
  "status (signup_created cfg e body u kd) = 201 \<and>
   token (signup_created cfg e body u kd) = Some (generateToken cfg (clock e) (u_id u) (u_role u))"
  by (simp add: signup_created_def)

lemma signup_Some_cases:
  assumes "signup cfg e body st = Some (r, st')"
  obtains (answered) "signup_checks body st = Some r" "st' = st"
  | (unknown_code) "signup_checks body st = None" "req_role body = Some ''kid''"
      "findOne_familyCode st (toUpperCase (str (req_familyCode body))) = None"
      "r = failure 400 ''Invalid family code. Please check with your parent.''" "st' = st"
  | (kid) p where "signup_checks body st = None" "req_role body = Some ''kid''"
      "findOne_familyCode st (toUpperCase (str (req_familyCode body))) = Some p"
      "signup_create cfg e body st (Some p) None = (r, st')"
  | (parent) c where "signup_checks body st = None" "req_role body \<noteq> Some ''kid''"
      "unique_family_code (random_bytes e) st 0 = Some c"
      "signup_create cfg e body st None (Some c) = (r, st')"
  using assms by (auto simp: signup_def split: option.splits if_splits)

lemma signup_create_not_invalid_code:
  "fst (signup_create cfg e body st pu code) \<noteq>
     failure 400 ''Invalid family code. Please check with your parent.''"
proof (cases rule: signup_create_outcome [of cfg e body st pu code])
  case (rejected m ms)
  then show ?thesis using messages_differ [of m ms] by simp
next
  case (half u st1 m ms)
  then show ?thesis using messages_differ [of m ms] by simp
next
  case (alone u st1)
  then show ?thesis by (simp add: signup_created_def failure_def)
next
  case (linked u st1 p k)
  then show ?thesis by (simp add: signup_created_def failure_def)
qed

subsection \<open>The invariants are kept\<close>

lemma is_space_lower_char: "is_space (lower_char c) = is_space c"
  by (auto simp: is_space_def lower_char_def is_upper_def)

lemma lower_char_idem: "lower_char (lower_char c) = lower_char c"
  by (auto simp: lower_char_def is_upper_def)

lemma dropWhile_space_lower:
  "dropWhile is_space (map lower_char s) = map lower_char (dropWhile is_space s)"
  by (induction s) (simp_all add: is_space_lower_char)

lemma trim_toLowerCase: "trim (toLowerCase s) = toLowerCase (trim s)"
  by (simp add: trim_def toLowerCase_def dropWhile_space_lower rev_map)

lemma toLowerCase_idem: "toLowerCase (toLowerCase s) = toLowerCase s"
  by (simp add: toLowerCase_def lower_char_idem)

lemma dropWhile_rev_last:
  "xs \<noteq> [] \<Longrightarrow> \<not> P (last xs) \<Longrightarrow> dropWhile P (rev xs) = rev xs"
  by (cases xs rule: rev_cases) simp_all

lemma dropWhile_rev_tail:
  assumes "t = [] \<or> \<not> is_space (hd t)"
  shows "dropWhile is_space (rev (dropWhile is_space (rev t))) = rev (dropWhile is_space (rev t))"
proof (cases "dropWhile is_space (rev t)")
  case Nil
  show ?thesis unfolding Nil by simp
next
  case (Cons x xs)
  let ?w = "dropWhile is_space (rev t)"
  have "rev t = takeWhile is_space (rev t) @ ?w" by simp
  then have "last (rev t) = last ?w" using Cons by (metis last_appendR list.distinct(1))
  moreover from Cons have "t \<noteq> []" by auto
  ultimately have "hd t = last ?w" by (simp add: last_rev)
  with assms \<open>t \<noteq> []\<close> have "\<not> is_space (last ?w)" by simp
  moreover from Cons have "?w \<noteq> []" by simp
  ultimately show ?thesis by (intro dropWhile_rev_last)
qed

lemma trim_idem: "trim (trim s) = trim s"
proof -
  let ?t = "dropWhile is_space s"
  have h: "?t = [] \<or> \<not> is_space (hd ?t)"
    using hd_dropWhile [of is_space s] by blast
  have "dropWhile is_space (rev (dropWhile is_space (rev ?t))) = rev (dropWhile is_space (rev ?t))"
    by (rule dropWhile_rev_tail [OF h])
  then show ?thesis by (simp add: trim_def)
qed

lemma normalized_email_idem: "normalized_email (normalized_email s) = normalized_email s"
  by (simp add: normalized_email_def trim_toLowerCase toLowerCase_idem trim_idem)

lemma emails_normalized_iff:
  "emails_normalized st \<longleftrightarrow> (\<forall>m \<in> set (map u_email (users st)). normalized_email m = m)"
  by (auto simp: emails_normalized_def list_all_iff)

lemma created_user_email:
  "created_user e st body pu code u \<Longrightarrow> normalized_email (u_email u) = u_email u"
  using normalized_email_idem [of "normalized_email (str (req_email body))"]
  by (simp add: created_user_def normalized_email_def)

lemma signup_create_keeps_emails_normalized:
  assumes "emails_normalized st" "signup_create cfg e body st pu code = (r, st')"
  shows "emails_normalized st'"
proof (cases rule: signup_create_outcome [of cfg e body st pu code])
  case (rejected m ms)
  with assms show ?thesis by simp
next
  case (half u st1 m ms)
  with assms created_user_email [OF half(3)] show ?thesis
    by (simp add: emails_normalized_iff)
next
  case (alone u st1)
  with assms created_user_email [OF alone(3)] show ?thesis
    by (simp add: emails_normalized_iff)
next
  case (linked u st1 p k)
  with assms created_user_email [OF linked(3)] show ?thesis
    by (simp add: emails_normalized_iff push_kids_emails)
qed

lemma signup_keeps_emails_normalized:
  assumes "emails_normalized st" "signup cfg e body st = Some (r, st')"
  shows "emails_normalized st'"
  using assms(2)
proof (cases rule: signup_Some_cases)
  case answered
  with assms show ?thesis by simp
next
  case unknown_code
  with assms show ?thesis by simp
next
  case (kid p)
  with assms signup_create_keeps_emails_normalized show ?thesis by blast
next
  case (parent c)
  with assms signup_create_keeps_emails_normalized show ?thesis by blast
qed

lemma first_holder_is_parent_iff:
  "first_holder_is_parent st \<longleftrightarrow>
     (\<forall>c. Some c \<in> set (map u_familyCode (users st)) \<longrightarrow>
        map_option u_role (find (\<lambda>u. u_familyCode u = Some c) (users st)) = Some ''parent'')"
proof
  assume inv: "first_holder_is_parent st"
  show "\<forall>c. Some c \<in> set (map u_familyCode (users st)) \<longrightarrow>
        map_option u_role (find (\<lambda>u. u_familyCode u = Some c) (users st)) = Some ''parent''"
  proof (intro allI impI)
    fix c assume "Some c \<in> set (map u_familyCode (users st))"
    then obtain u where u: "u \<in> set (users st)" "u_familyCode u = Some c" by auto
    from inv u(1) have "case u_familyCode u of None \<Rightarrow> True
         | Some c \<Rightarrow> (case findOne_familyCode st c of None \<Rightarrow> False
                      | Some p \<Rightarrow> u_role p = ''parent'')"
      unfolding first_holder_is_parent_def list_all_iff by blast
    with u(2) show "map_option u_role (find (\<lambda>u. u_familyCode u = Some c) (users st)) = Some ''parent''"
      by (cases "find (\<lambda>u. u_familyCode u = Some c) (users st)")
        (simp_all add: findOne_familyCode_def)
  qed
next
  assume r: "\<forall>c. Some c \<in> set (map u_familyCode (users st)) \<longrightarrow>
        map_option u_role (find (\<lambda>u. u_familyCode u = Some c) (users st)) = Some ''parent''"
  show "first_holder_is_parent st"
    unfolding first_holder_is_parent_def list_all_iff
  proof
    fix u assume u: "u \<in> set (users st)"
    show "case u_familyCode u of None \<Rightarrow> True
         | Some c \<Rightarrow> (case findOne_familyCode st c of None \<Rightarrow> False
                      | Some p \<Rightarrow> u_role p = ''parent'')"
    proof (cases "u_familyCode u")
      case None
      then show ?thesis by simp
    next
      case (Some c)
      with u have "Some c \<in> set (map u_familyCode (users st))" by force
      with r have "map_option u_role (find (\<lambda>u. u_familyCode u = Some c) (users st)) = Some ''parent''"
        by blast
      with Some show ?thesis by (auto simp: findOne_familyCode_def)
    qed
  qed
qed

lemma find_snoc:
  "find P (xs @ [u]) = (case find P xs of None \<Rightarrow> (if P u then Some u else None) | Some x \<Rightarrow> Some x)"
  by (induction xs) simp_all

lemma parent_role_after_checks:
  assumes "signup_checks body st = None" "req_role body \<noteq> Some ''kid''"
  shows "(if truthy (req_role body) then str (req_role body) else ''parent'') = ''parent''"
proof (cases "truthy (req_role body)")
  case False
  then show ?thesis by simp
next
  case True
  then obtain s where s: "req_role body = Some s" by (auto simp: truthy_def split: option.splits)
  from assms(1) True have "str (req_role body) = ''parent'' \<or> str (req_role body) = ''kid''"
    by (auto simp: signup_checks_def Let_def split: if_splits option.splits)
  with s assms(2) True show ?thesis by (auto simp: str_def)
qed

lemma appended_keeps_first_holder:
  assumes inv: "first_holder_is_parent st"
    and us: "users st1 = users st @ [u]"
    and new: "case u_familyCode u of None \<Rightarrow> True
              | Some c \<Rightarrow> (case findOne_familyCode st c of
                             None \<Rightarrow> u_role u = ''parent''
                           | Some p \<Rightarrow> True)"
  shows "first_holder_is_parent st1"
  unfolding first_holder_is_parent_iff
proof (intro allI impI)
  fix c assume c: "Some c \<in> set (map u_familyCode (users st1))"
  let ?P = "\<lambda>u. u_familyCode u = Some c"
  show "map_option u_role (find ?P (users st1)) = Some ''parent''"
  proof (cases "find ?P (users st)")
    case (Some p)
    from find_SomeD [OF Some] have "Some c \<in> set (map u_familyCode (users st))" by force
    with inv have "map_option u_role (find ?P (users st)) = Some ''parent''"
      by (simp add: first_holder_is_parent_iff)
    with Some show ?thesis by (simp add: us find_snoc)
  next
    case None
    then have "Some c \<notin> set (map u_familyCode (users st))"
      by (auto simp: find_None_iff)
    with c us have uc: "u_familyCode u = Some c" by auto
    with new None have "u_role u = ''parent''" by (simp add: findOne_familyCode_def)
    with None uc show ?thesis by (simp add: us find_snoc)
  qed
qed

lemma pushed_keeps_first_holder:
  assumes "first_holder_is_parent st1" "users st' = findByIdAndUpdate_push_kids pid k (users st1)"
  shows "first_holder_is_parent st'"
  using assms by (simp add: first_holder_is_parent_iff push_kids_codes push_kids_holder_role)

lemma signup_keeps_first_holder_is_parent:
  assumes "first_holder_is_parent st" "signup cfg e body st = Some (r, st')"
  shows "first_holder_is_parent st'"
proof -
  have created: "first_holder_is_parent st'"
    if sc: "signup_create cfg e body st pu code = (r, st')"
      and new: "\<And>u. created_user e st body pu code u \<Longrightarrow>
          (case u_familyCode u of None \<Rightarrow> True
              | Some c \<Rightarrow> (case findOne_familyCode st c of
                             None \<Rightarrow> u_role u = ''parent''
                           | Some p \<Rightarrow> True))" for pu code
  proof (cases rule: signup_create_outcome [of cfg e body st pu code])
    case (rejected m ms)
    with sc assms show ?thesis by simp
  next
    case (half u st1 m ms)
    with sc appended_keeps_first_holder [OF assms(1) half(2) new [OF half(3)]] show ?thesis by simp
  next
    case (alone u st1)
    with sc appended_keeps_first_holder [OF assms(1) alone(2) new [OF alone(3)]] show ?thesis by simp
  next
    case (linked u st1 p k)
    let ?mid = "st\<lparr>users := users st @ [u]\<rparr>"
    have "first_holder_is_parent ?mid"
      by (rule appended_keeps_first_holder [OF assms(1) _ new [OF linked(3)]]) simp
    moreover from linked sc have "users st' = findByIdAndUpdate_push_kids (u_id p) (k_id k) (users ?mid)"
      by simp
    ultimately show ?thesis by (rule pushed_keeps_first_holder)
  qed
  from assms(2) show ?thesis
  proof (cases rule: signup_Some_cases)
    case answered
    with assms show ?thesis by simp
  next
    case unknown_code
    with assms show ?thesis by simp
  next
    case (kid p)
    from find_SomeD [OF kid(3) [unfolded findOne_familyCode_def]]
    have pc: "u_familyCode p = Some (toUpperCase (str (req_familyCode body)))" by simp
    show ?thesis
    proof (rule created [OF kid(4)])
      fix u assume "created_user e st body (Some p) None u"
      with kid(2) pc have "u_familyCode u = Some (toUpperCase (str (req_familyCode body)))"
        by (simp add: created_user_def)
      with kid(3) show "case u_familyCode u of None \<Rightarrow> True
              | Some c \<Rightarrow> (case findOne_familyCode st c of
                             None \<Rightarrow> u_role u = ''parent''
                           | Some p \<Rightarrow> True)" by simp
    qed
  next
    case (parent c)
    show ?thesis
    proof (rule created [OF parent(4)])
      fix u assume "created_user e st body None (Some c) u"
      with parent(2) parent_role_after_checks [OF parent(1,2)]
      have "u_familyCode u = Some c" "u_role u = ''parent''"
        by (simp_all add: created_user_def)
      then show "case u_familyCode u of None \<Rightarrow> True
              | Some c \<Rightarrow> (case findOne_familyCode st c of
                             None \<Rightarrow> u_role u = ''parent''
                           | Some p \<Rightarrow> True)"
        by (simp split: option.splits)
    qed
  qed
qed

lemma empty_db_invariants: "emails_normalized empty_db \<and> first_holder_is_parent empty_db"
  by (simp add: emails_normalized_def first_holder_is_parent_def empty_db_def)

lemma first_holder_is_parentD:
  assumes "first_holder_is_parent st" "findOne_familyCode st c = Some p"
  shows "u_role p = ''parent''"
proof -
  from find_SomeD [OF assms(2) [unfolded findOne_familyCode_def]]
  have "p \<in> set (users st)" "u_familyCode p = Some c" by simp_all
  with assms show ?thesis
    by (auto simp: first_holder_is_parent_def list_all_iff split: option.splits)
qed

lemma owned_by_parent_iff:
  assumes "first_holder_is_parent st"
  shows "owned_by_parent st c \<longleftrightarrow> findOne_familyCode st c \<noteq> None"
proof
  assume "owned_by_parent st c"
  then show "findOne_familyCode st c \<noteq> None"
    by (auto simp: owned_by_parent_def list_ex_iff findOne_familyCode_def find_None_iff)
next
  assume "findOne_familyCode st c \<noteq> None"
  then obtain p where p: "findOne_familyCode st c = Some p" by blast
  from find_SomeD [OF p [unfolded findOne_familyCode_def]] first_holder_is_parentD [OF assms p]
  show "owned_by_parent st c"
    by (auto simp: owned_by_parent_def list_ex_iff)
qed

subsection \<open>The sample data evaluated\<close>

lemma ex_kid_checks: "signup_checks ex_kid_body ex_db = None"
  by code_simp

lemma ex_unknown_checks: "signup_checks ex_unknown_body ex_db = None"
  by code_simp

lemma ex_parent_checks: "signup_checks ex_parent_body ex_db = None"
  by code_simp

lemma ex_db_invariants: "first_holder_is_parent ex_db \<and> emails_normalized ex_db"
  by code_simp

lemma ex_kid_code: "toUpperCase (str (req_familyCode ex_kid_body)) = ''A3F200''"
  by code_simp

lemma ex_unknown_code: "toUpperCase (str (req_familyCode ex_unknown_body)) = ''ZZZZZZ'' \<and>
   findOne_familyCode ex_db ''ZZZZZZ'' = None \<and> req_role ex_unknown_body = Some ''kid''"
  by code_simp

lemma ex_parent_signup_status:
  "status (fst (signup_create ex_cfg ex_env ex_parent_body ex_db None (Some ''A3F201''))) = 201"
  by code_simp

lemma ex_loop: "unique_family_code (random_bytes ex_env) ex_db 0 = Some ''A3F201''"
proof -
  have u: "findOne_familyCode ex_db (generateFamilyCode (random_bytes ex_env 0)) \<noteq> None"
    by (simp add: draw0 ex_db_code_used)
  have f: "findOne_familyCode ex_db (generateFamilyCode (random_bytes ex_env (0 + 1))) = None"
    using draw1 ex_db_code_free by simp
  show ?thesis
    using loop_returns_first_unused [where rnd = "random_bytes ex_env" and st = ex_db and n = 0 and k = 1, OF f]
      u draw1 by simp
qed

lemma ex_owned: "owned_by_parent ex_db ''A3F200'' \<and> \<not> owned_by_parent ex_db ''ZZZZZZ''"
  by code_simp

section \<open>The claims\<close>

text \<open>
  C1. For a kid signup that passes the input checks, on a store in which the first holder
  of every family code is a parent (as in every store the handlers build), the user
  resolved from the upper-cased family code is a parent and is the one the account is
  created under; and the signup answers 400 ``Invalid family code. Please check with your
  parent.'' exactly when no parent owns the upper-cased code.
\<close>

theorem kid_signup_resolves_a_parent:
  assumes "first_holder_is_parent st" and "req_role body = Some ''kid''"
    and "signup_checks body st = None"
  shows "(\<forall>p. findOne_familyCode st (toUpperCase (str (req_familyCode body))) = Some p \<longrightarrow>
            u_role p = ''parent'' \<and>
            signup cfg e body st = Some (signup_create cfg e body st (Some p) None)) \<and>
         ((\<exists>st'. signup cfg e body st =
              Some (failure 400 ''Invalid family code. Please check with your parent.'', st')) \<longleftrightarrow>
          \<not> owned_by_parent st (toUpperCase (str (req_familyCode body))))"
proof (cases "findOne_familyCode st (toUpperCase (str (req_familyCode body)))")
  case None
  with assms show ?thesis
    by (simp add: signup_kid_branch owned_by_parent_iff)
next
  case (Some p)
  have "signup cfg e body st = Some (signup_create cfg e body st (Some p) None)"
    using assms Some by (simp add: signup_kid_branch)
  moreover have "\<And>st'. signup_create cfg e body st (Some p) None \<noteq>
      (failure 400 ''Invalid family code. Please check with your parent.'', st')"
    using signup_create_not_invalid_code [of cfg e body st "Some p" None] by auto
  ultimately show ?thesis
    using assms Some first_holder_is_parentD [OF assms(1) Some]
    by (simp add: owned_by_parent_iff)
qed

theorem kid_signup_resolves_a_parent_witness:
  "first_holder_is_parent ex_db \<and> req_role ex_kid_body = Some ''kid'' \<and>
   signup_checks ex_kid_body ex_db = None \<and>
   findOne_familyCode ex_db (toUpperCase (str (req_familyCode ex_kid_body))) = Some ex_parent \<and>
   u_role ex_parent = ''parent'' \<and>
   owned_by_parent ex_db ''A3F200'' \<and>
   (\<nexists>st'. signup ex_cfg ex_env ex_kid_body ex_db =
      Some (failure 400 ''Invalid family code. Please check with your parent.'', st')) \<and>
   \<not> owned_by_parent ex_db ''ZZZZZZ'' \<and>
   (\<exists>st'. signup ex_cfg ex_env ex_unknown_body ex_db =
      Some (failure 400 ''Invalid family code. Please check with your parent.'', st'))"
proof -
  have k: "req_role ex_kid_body = Some ''kid''" "req_role ex_unknown_body = Some ''kid''"
    by (simp_all add: ex_kid_body_def ex_unknown_body_def)
  note a = kid_signup_resolves_a_parent [OF conjunct1 [OF ex_db_invariants] k(1) ex_kid_checks,
      where cfg = ex_cfg and e = ex_env]
  note b = kid_signup_resolves_a_parent [OF conjunct1 [OF ex_db_invariants] k(2) ex_unknown_checks,
      where cfg = ex_cfg and e = ex_env]
  have c: "\<nexists>st'. signup ex_cfg ex_env ex_kid_body ex_db =
      Some (failure 400 ''Invalid family code. Please check with your parent.'', st')"
    using a [THEN conjunct2] ex_kid_code ex_owned by simp
  have d: "\<exists>st'. signup ex_cfg ex_env ex_unknown_body ex_db =
      Some (failure 400 ''Invalid family code. Please check with your parent.'', st')"
    using b [THEN conjunct2] ex_unknown_code ex_owned by simp
  have f: "u_role ex_parent = ''parent''"
    using a [THEN conjunct1] ex_kid_code ex_db_code_used by simp
  from c d f k ex_kid_checks ex_db_invariants ex_kid_code ex_db_code_used ex_owned
  show ?thesis by (simp del: not_ex)
qed

text \<open>
  C2 (as amended). Every family code the generator produces has six characters, each an
  upper-case hexadecimal digit (0 to 9, A to F), hence upper-case alphanumeric; the set of
  codes it can produce has 16^6 = 16777216 elements.
\<close>

theorem family_code_six_upper_hex_of_16_pow_6:
  "length (generateFamilyCode r) = 6 \<and>
   list_all is_upper_hex (generateFamilyCode r) \<and>
   list_all is_upper_alnum (generateFamilyCode r) \<and>
   card family_code_space = 16 ^ 6"
proof -
  have "list_all is_upper_alnum (generateFamilyCode r)"
    using generateFamilyCode_shape [of r] by (auto simp: list_all_iff hex_subset_alnum)
  then show ?thesis
    by (simp add: generateFamilyCode_shape card_family_code_space)
qed

text \<open>
  C2 as stated does not hold: the set of codes the generator can produce does not have
  36^6 elements.
\<close>

theorem family_code_space_is_not_36_pow_6: "card family_code_space \<noteq> 36 ^ 6"
  by (simp add: card_family_code_space)

text \<open>
  C3. On a store whose e-mails are in normal form, signup answers with the first failing
  check of the specification's list (e-mail and password present; password of at least 6
  characters; role absent, parent or kid; for a kid the family code, then the name, then
  the age; e-mail not registered, compared lower-cased and trimmed, answered 409) and
  writes nothing; when none fails the handler goes on. In particular a signup with
  A@x.com, whose other checks pass, conflicts with a stored a@x.com.
\<close>

theorem signup_checks_in_specified_order:
  assumes "emails_normalized st"
  shows "(first_failure (spec_signup_checks body st) = Some r \<longrightarrow>
            signup cfg e body st = Some (r, st)) \<and>
         (first_failure (spec_signup_checks body st) = None \<longrightarrow> signup_checks body st = None) \<and>
         (list_all fst (take 6 (spec_signup_checks body st)) \<and>
          req_email body = Some ''A@x.com'' \<and> list_ex (\<lambda>u. u_email u = ''a@x.com'') (users st) \<longrightarrow>
            signup cfg e body st =
              Some (failure 409 ''User with this email already exists'', st))"
proof -
  note ref = signup_checks_refines_spec [OF assms, of body]
  have n: "normalized_email ''A@x.com'' = ''a@x.com''" "normalized_email ''a@x.com'' = ''a@x.com''"
    by code_simp+
  have third: "signup cfg e body st = Some (failure 409 ''User with this email already exists'', st)"
    if a: "list_all fst (take 6 (spec_signup_checks body st))"
      and b: "req_email body = Some ''A@x.com''"
      and c: "list_ex (\<lambda>u. u_email u = ''a@x.com'') (users st)"
  proof -
    from c obtain u where u: "u \<in> set (users st)" "u_email u = ''a@x.com''"
      by (auto simp: list_ex_iff)
    have "normalized_email (u_email u) = normalized_email (str (req_email body))"
      using u b n by (simp add: str_def)
    with u(1) have "list_ex (\<lambda>u. normalized_email (u_email u) = normalized_email (str (req_email body)))
        (users st)"
      unfolding list_ex_iff by blast
    with a have "first_failure (spec_signup_checks body st) =
        Some (failure 409 ''User with this email already exists'')"
      by (simp add: first_failure_def spec_signup_checks_def)
    with ref show ?thesis by (simp add: signup_def)
  qed
  show ?thesis
    using ref third by (simp add: signup_def)
qed

theorem signup_checks_in_specified_order_witness:
  "emails_normalized ex_db \<and>
   first_failure (spec_signup_checks (ex_kid_body\<lparr>req_age := None\<rparr>) ex_db) =
     Some (failure 400 ''Age is required for kid signup'') \<and>
   signup ex_cfg ex_env (ex_kid_body\<lparr>req_age := None\<rparr>) ex_db =
     Some (failure 400 ''Age is required for kid signup'', ex_db) \<and>
   first_failure (spec_signup_checks ex_kid_body ex_db) = None \<and>
   signup_checks ex_kid_body ex_db = None \<and>
   signup ex_cfg ex_env (ex_parent_body\<lparr>req_email := Some ''A@x.com''\<rparr>) ex_db =
     Some (failure 409 ''User with this email already exists'', ex_db)"
proof -
  have i: "emails_normalized ex_db"
    by code_simp
  have f: "first_failure (spec_signup_checks (ex_kid_body\<lparr>req_age := None\<rparr>) ex_db) =
     Some (failure 400 ''Age is required for kid signup'')"
    by code_simp
  have g: "first_failure (spec_signup_checks ex_kid_body ex_db) = None"
    by code_simp
  have h: "list_all fst (take 6 (spec_signup_checks (ex_parent_body\<lparr>req_email := Some ''A@x.com''\<rparr>) ex_db)) \<and>
          req_email (ex_parent_body\<lparr>req_email := Some ''A@x.com''\<rparr>) = Some ''A@x.com'' \<and>
          list_ex (\<lambda>u. u_email u = ''a@x.com'') (users ex_db)"
    by code_simp
  show ?thesis
    using i f g h
      signup_checks_in_specified_order [OF i, where body = "ex_kid_body\<lparr>req_age := None\<rparr>"
        and cfg = ex_cfg and e = ex_env]
      signup_checks_in_specified_order [OF i, where body = ex_kid_body and cfg = ex_cfg and e = ex_env]
      signup_checks_in_specified_order [OF i, where body = "ex_parent_body\<lparr>req_email := Some ''A@x.com''\<rparr>"
        and cfg = ex_cfg and e = ex_env]
    by simp
qed

text \<open>
  C4. A kid signup whose upper-cased family code matches no stored user is answered with a
  failure and leaves the store as it was: no User and no Kid document is created. When
  the input checks pass, the failure is 400 ``Invalid family code. Please check with your
  parent.''.
\<close>

theorem kid_signup_unknown_code_writes_nothing:
  assumes "req_role body = Some ''kid''"
    and "findOne_familyCode st (toUpperCase (str (req_familyCode body))) = None"
  shows "\<exists>r. signup cfg e body st = Some (r, st) \<and> success r = False \<and> status r \<noteq> 201 \<and>
     (signup_checks body st = None \<longrightarrow>
        r = failure 400 ''Invalid family code. Please check with your parent.'')"
proof (cases "signup_checks body st")
  case None
  with assms show ?thesis by (simp add: signup_kid_branch failure_def)
next
  case (Some r)
  with signup_checks_failure [OF Some] show ?thesis by (simp add: signup_def)
qed

theorem kid_signup_unknown_code_writes_nothing_witness:
  "req_role ex_unknown_body = Some ''kid'' \<and>
   findOne_familyCode ex_db (toUpperCase (str (req_familyCode ex_unknown_body))) = None \<and>
   signup ex_cfg ex_env ex_unknown_body ex_db =
     Some (failure 400 ''Invalid family code. Please check with your parent.'', ex_db)"
  using kid_signup_unknown_code_writes_nothing [where body = ex_unknown_body and st = ex_db
      and cfg = ex_cfg and e = ex_env] ex_unknown_code ex_unknown_checks
  by auto

text \<open>
  C5. After a successful signup (status 201), verifying the returned token with the same
  secret, at any time before the token expires, yields claims whose id and role are those
  of the user the signup appended to the collection.
\<close>

theorem signup_token_verifies_to_created_user:
  assumes "signup cfg e body st = Some (r, st')" and "status r = 201"
    and "now < clock e + jwt_expire cfg"
  shows "\<exists>tok u. token r = Some tok \<and>
           length (users st') = Suc (length (users st)) \<and> u = last (users st') \<and>
           jwt_verify tok (jwt_secret cfg) now =
             Inr \<lparr>c_id = u_id u, c_role = u_role u, c_iat = clock e,
                  c_exp = clock e + jwt_expire cfg\<rparr>"
proof -
  have created: ?thesis
    if sc: "signup_create cfg e body st pu code = (r, st')"
      and pu: "\<And>p. pu = Some p \<Longrightarrow> p \<in> set (users st)" for pu code
  proof (cases rule: signup_create_outcome [of cfg e body st pu code])
    case (rejected m ms)
    with sc assms(2) signup_catch_status show ?thesis by (metis fst_conv)
  next
    case (half u st1 m ms)
    with sc assms(2) signup_catch_status show ?thesis by (metis fst_conv)
  next
    case (alone u st1)
    with sc have r: "r = signup_created cfg e body u None" and s: "users st' = users st @ [u]"
      by simp_all
    have "jwt_verify (generateToken cfg (clock e) (u_id u) (u_role u)) (jwt_secret cfg) now =
        Inr \<lparr>c_id = u_id u, c_role = u_role u, c_iat = clock e, c_exp = clock e + jwt_expire cfg\<rparr>"
      using assms(3) by (simp add: generateToken_def jwt_sign_def jwt_verify_encode)
    with r s show ?thesis by (simp add: signup_created_fields)
  next
    case (linked u st1 p k)
    from pu [OF linked(4)] have "\<exists>x\<in>set (users st). u_id x = u_id p" by blast
    then have "findByIdAndUpdate_push_kids (u_id p) (k_id k) (users st @ [u]) =
        findByIdAndUpdate_push_kids (u_id p) (k_id k) (users st) @ [u]"
      by (rule push_kids_append)
    with linked sc have r: "r = signup_created cfg e body u (Some k)"
      and s: "users st' = findByIdAndUpdate_push_kids (u_id p) (k_id k) (users st) @ [u]"
      by simp_all
    have "jwt_verify (generateToken cfg (clock e) (u_id u) (u_role u)) (jwt_secret cfg) now =
        Inr \<lparr>c_id = u_id u, c_role = u_role u, c_iat = clock e, c_exp = clock e + jwt_expire cfg\<rparr>"
      using assms(3) by (simp add: generateToken_def jwt_sign_def jwt_verify_encode)
    with r s show ?thesis by (simp add: signup_created_fields)
  qed
  from assms(1) show ?thesis
  proof (cases rule: signup_Some_cases)
    case answered
    with signup_checks_failure assms(2) show ?thesis by blast
  next
    case unknown_code
    with assms(2) show ?thesis by (simp add: failure_def)
  next
    case (kid p)
    from find_SomeD [OF kid(3) [unfolded findOne_familyCode_def]] have "p \<in> set (users st)" by simp
    with kid(4) show ?thesis by (intro created [of "Some p" None]) simp_all
  next
    case (parent c)
    then show ?thesis by (intro created [of None "Some c"]) simp_all
  qed
qed

theorem signup_token_verifies_to_created_user_witness:
  "\<exists>r st'. signup ex_cfg ex_env ex_parent_body ex_db = Some (r, st') \<and> status r = 201 \<and>
     120 < clock ex_env + jwt_expire ex_cfg \<and>
     (\<exists>tok u. token r = Some tok \<and> u = last (users st') \<and>
        length (users st') = Suc (length (users ex_db)) \<and>
        jwt_verify tok (jwt_secret ex_cfg) 120 =
          Inr \<lparr>c_id = u_id u, c_role = u_role u, c_iat = 100, c_exp = 160\<rparr>)"
proof -
  let ?res = "signup_create ex_cfg ex_env ex_parent_body ex_db None (Some ''A3F201'')"
  have r: "req_role ex_parent_body \<noteq> Some ''kid''"
    by (simp add: ex_parent_body_def)
  have s: "signup ex_cfg ex_env ex_parent_body ex_db = Some (fst ?res, snd ?res)"
    by (simp add: signup_parent_branch [OF ex_parent_checks r] ex_loop)
  have t: "120 < clock ex_env + jwt_expire ex_cfg"
    by (simp add: ex_env_def ex_cfg_def)
  from signup_token_verifies_to_created_user [OF s ex_parent_signup_status t] s t
    ex_parent_signup_status
  show ?thesis
    by (intro exI [of _ "fst ?res"] exI [of _ "snd ?res"]) (simp add: ex_env_def ex_cfg_def)
qed

text \<open>
  C6. Verification rejects a token whose expiry is not after the current time although it
  is signed with the service's secret, and rejects a token signed with any other secret
  whatever its expiry; the middleware answers 401 ``Token has expired'' in the first case
  and 401 ``Invalid token'' in the second, and the two answers differ.
\<close>

theorem token_expired_or_foreign_rejected:
  "(c_exp c \<le> now \<longrightarrow>
      jwt_verify (jwt_encode c (jwt_secret cfg)) (jwt_secret cfg) now = Inl TokenExpiredError \<and>
      fst (auth cfg now st (Some (''Bearer '' @ jwt_encode c (jwt_secret cfg)))) =
        Responded (failure 401 ''Token has expired'')) \<and>
   (key \<noteq> jwt_secret cfg \<longrightarrow>
      jwt_verify (jwt_encode c key) (jwt_secret cfg) now = Inl JsonWebTokenError \<and>
      fst (auth cfg now st (Some (''Bearer '' @ jwt_encode c key))) =
        Responded (failure 401 ''Invalid token'')) \<and>
   failure 401 ''Token has expired'' \<noteq> failure 401 ''Invalid token''"
  using auth_bearer [OF jwt_encode_nonempty, of cfg now st c "jwt_secret cfg"]
    auth_bearer [OF jwt_encode_nonempty, of cfg now st c key]
  by (simp add: jwt_verify_encode failure_def)

theorem token_expired_or_foreign_rejected_witness:
  "c_exp ex_claims \<le> 160 \<and> ''forged'' \<noteq> jwt_secret ex_cfg \<and>
   jwt_verify (jwt_encode ex_claims (jwt_secret ex_cfg)) (jwt_secret ex_cfg) 160 =
     Inl TokenExpiredError \<and>
   fst (auth ex_cfg 160 ex_db (Some (''Bearer '' @ jwt_encode ex_claims (jwt_secret ex_cfg)))) =
     Responded (failure 401 ''Token has expired'') \<and>
   jwt_verify (jwt_encode ex_claims ''forged'') (jwt_secret ex_cfg) 120 = Inl JsonWebTokenError \<and>
   fst (auth ex_cfg 120 ex_db (Some (''Bearer '' @ jwt_encode ex_claims ''forged''))) =
     Responded (failure 401 ''Invalid token'')"
proof -
  have h: "c_exp ex_claims \<le> 160" "''forged'' \<noteq> jwt_secret ex_cfg"
    by (simp_all add: ex_claims_def ex_cfg_def)
  show ?thesis
    using h token_expired_or_foreign_rejected [where c = ex_claims and now = 160 and cfg = ex_cfg and st = ex_db]
      token_expired_or_foreign_rejected [where c = ex_claims and now = 120 and cfg = ex_cfg and st = ex_db
        and key = "''forged''"]
    by simp
qed

text \<open>
  C7. A login that fails because no user is stored under the normalised e-mail and a
  login that fails because the stored digest does not verify against the supplied
  password get one and the same response: status 401 with the message
  ``Invalid email or password''.
\<close>

theorem login_failures_indistinguishable:
  assumes "truthy (l_email body)" and "truthy (l_password body)"
    and "findOne_email st (trim (toLowerCase (str (l_email body)))) = None \<or>
         (\<exists>u digest. findOne_email st (trim (toLowerCase (str (l_email body)))) = Some u \<and>
            u_password u = Some digest \<and> \<not> bcrypt_compare (str (l_password body)) digest)"
  shows "login cfg e body st =
     \<lparr>status = 401, success = False, message = Some ''Invalid email or password'',
      token = None, data = None\<rparr>"
  using assms by (auto simp: login_def failure_def)

theorem login_failures_indistinguishable_witness:
  "findOne_email ex_db (trim (toLowerCase ''nobody@x.com'')) = None \<and>
   findOne_email ex_db (trim (toLowerCase ''A@x.com'')) = Some ex_parent \<and>
   \<not> bcrypt_compare ''wrong99'' (Bcrypt (10, 5) (Plain ''secret1'')) \<and>
   login ex_cfg ex_env \<lparr>l_email = Some ''nobody@x.com'', l_password = Some ''secret1''\<rparr> ex_db =
     login ex_cfg ex_env \<lparr>l_email = Some ''A@x.com'', l_password = Some ''wrong99''\<rparr> ex_db \<and>
   login ex_cfg ex_env \<lparr>l_email = Some ''A@x.com'', l_password = Some ''wrong99''\<rparr> ex_db =
     \<lparr>status = 401, success = False, message = Some ''Invalid email or password'',
      token = None, data = None\<rparr>"
proof -
  have a: "findOne_email ex_db (trim (toLowerCase ''nobody@x.com'')) = None"
    by code_simp
  have b: "findOne_email ex_db (trim (toLowerCase ''A@x.com'')) = Some ex_parent"
    by code_simp
  have c: "\<not> bcrypt_compare ''wrong99'' (Bcrypt (10, 5) (Plain ''secret1''))"
    by (simp add: bcrypt_compare_def)
  have p: "u_password ex_parent = Some (Bcrypt (10, 5) (Plain ''secret1''))"
    by (simp add: ex_parent_def)
  show ?thesis
    using a b c
      login_failures_indistinguishable [where body = "\<lparr>l_email = Some ''nobody@x.com'', l_password = Some ''secret1''\<rparr>"
        and st = ex_db and cfg = ex_cfg and e = ex_env]
      login_failures_indistinguishable [where body = "\<lparr>l_email = Some ''A@x.com'', l_password = Some ''wrong99''\<rparr>"
        and st = ex_db and cfg = ex_cfg and e = ex_env]
    by (simp add: truthy_def str_def p)
qed



text \<open>
  C9. On saving a User document the hook replaces the password by its salted digest when
  the password path is marked modified, and leaves the document as it is, with no call to
  the hashing library, when it is not. A new document has the path marked; the saved
  document holds the digest exactly in the first case and has the mark cleared, so saving
  it again keeps the digest and hashes nothing.
\<close>

theorem password_hashed_iff_modified:
  "(isModified d ''password'' \<and> u_password (d_user d) = Some t \<longrightarrow>
      pre_save e d =
        Inr (d\<lparr>d_user := (d_user d)\<lparr>u_password := Some (Bcrypt (10, salt_seed e) t)\<rparr>\<rparr>,
             [BcryptGenSalt 10, BcryptHash (10, salt_seed e)])) \<and>
   (\<not> isModified d ''password'' \<longrightarrow> pre_save e d = Inr (d, [])) \<and>
   isModified (new_User e st i) ''password'' \<and>
   (save e st d = Inr (d1, st1) \<longrightarrow>
      u_password (d_user d1) =
        (if isModified d ''password''
         then map_option (Bcrypt (10, salt_seed e)) (u_password (d_user d))
         else u_password (d_user d)) \<and>
      \<not> isModified d1 ''password'' \<and> pre_save e' d1 = Inr (d1, []))"
  by (auto simp: pre_save_def isModified_def new_User_def save_def bcrypt_genSalt_def
      bcrypt_hash_def Let_def split: list.splits sum.splits if_splits option.splits)

theorem password_hashed_iff_modified_witness:
  "isModified (new_User ex_env empty_db ex_input) ''password'' \<and>
   u_password (d_user (new_User ex_env empty_db ex_input)) = Some (Plain ''secret1'') \<and>
   (\<exists>d1 st1. save ex_env empty_db (new_User ex_env empty_db ex_input) = Inr (d1, st1) \<and>
      u_password (d_user d1) = Some (Bcrypt (10, 5) (Plain ''secret1'')) \<and>
      users st1 = [ex_parent] \<and>
      \<not> isModified d1 ''password'' \<and> pre_save ex_env d1 = Inr (d1, []))"
proof -
  let ?d = "new_User ex_env empty_db ex_input"
  let ?d1 = "\<lparr>d_user = ex_parent, d_isNew = False, d_modified = []\<rparr>"
  let ?st1 = "\<lparr>users = [ex_parent], kids = [], next_id = 1\<rparr>"
  have m: "isModified ?d ''password''"
    using password_hashed_iff_modified [where e = ex_env and st = empty_db and i = ex_input]
    by simp
  have p: "u_password (d_user ?d) = Some (Plain ''secret1'')"
    by (simp add: new_User_def ex_input_def)
  have s: "save ex_env empty_db ?d = Inr (?d1, ?st1)"
    by code_simp
  have "\<not> isModified ?d1 ''password'' \<and> pre_save ex_env ?d1 = Inr (?d1, [])"
    using s password_hashed_iff_modified [where d = ?d and e = ex_env and st = empty_db
        and ?d1.0 = ?d1 and ?st1.0 = ?st1 and e' = ex_env]
    by simp
  with m p s show ?thesis
    by (intro conjI exI [of _ ?d1] exI [of _ ?st1]) (simp_all add: ex_parent_def)
qed

text \<open>
  C10. A request whose Authorization header is exactly ``Bearer '' is answered 401
  ``No token found'', whatever the configuration, the clock and the store, and without
  any call to the token library or to the user collection.
\<close>

theorem bearer_with_empty_token_rejected_first:
  "auth cfg now st (Some ''Bearer '') =
     (Responded \<lparr>status = 401, success = False, message = Some ''No token found'',
                 token = None, data = None\<rparr>, [])"
  by (simp add: auth_def truthy_def str_def startsWith_def substring_def failure_def)

end
